theory Spec2Isabelle
  imports Complex_Main "HOL-Library.Sublist"
begin

section \<open>Python strings\<close>

text \<open>
  A Python \<open>str\<close> is modelled as a \<open>string\<close>, a list of characters with code points
  0 to 255. The string operations the server and the tools use are written out below.
\<close>

text \<open>\<open>sep in s\<close> and \<open>s.split(sep, 1)\<close>: the text before and after the first
  occurrence of \<open>sep\<close>, or \<open>None\<close> when \<open>sep\<close> does not occur.\<close>

fun split_once :: "string \<Rightarrow> string \<Rightarrow> (string \<times> string) option" where
  "split_once sep [] = (if sep = [] then Some ([], []) else None)"
| "split_once sep (c # cs) =
     (if prefix sep (c # cs) then Some ([], drop (length sep) (c # cs))
      else (case split_once sep cs of
              None \<Rightarrow> None
            | Some (before, after) \<Rightarrow> Some (c # before, after)))"

definition str_contains :: "string \<Rightarrow> string \<Rightarrow> bool" where
  "str_contains sep s = (split_once sep s \<noteq> None)"

definition endswith :: "string \<Rightarrow> string \<Rightarrow> bool" where
  "endswith s suf = suffix suf s"

text \<open>\<open>c.isspace()\<close> for the code points below 256.\<close>

definition isspace :: "char \<Rightarrow> bool" where
  "isspace c = (let n = (of_char c :: nat) in
     (9 \<le> n \<and> n \<le> 13) \<or> (28 \<le> n \<and> n \<le> 32) \<or> n = 133 \<or> n = 160)"

text \<open>\<open>s.strip()\<close>: leading and trailing whitespace removed. The code only tests whether
  the stripped text is empty (\<open>if s.strip():\<close>).\<close>

definition strip :: "string \<Rightarrow> string" where
  "strip s = rev (dropWhile isspace (rev (dropWhile isspace s)))"

text \<open>\<open>s.lower()\<close> for the code points below 256: the letters A to Z and the
  accented capitals 192 to 222 (the multiplication sign 215 apart) move up by 32.\<close>

definition lower_char :: "char \<Rightarrow> char" where
  "lower_char c = (let n = (of_char c :: nat) in
     if (65 \<le> n \<and> n \<le> 90) \<or> (192 \<le> n \<and> n \<le> 222 \<and> n \<noteq> 215)
     then char_of (n + 32) else c)"

definition lower :: "string \<Rightarrow> string" where
  "lower s = map lower_char s"

definition ord :: "char \<Rightarrow> int" where
  "ord c = of_char c"

text \<open>\<open>str(n)\<close> for an integer.\<close>

function str_nat :: "nat \<Rightarrow> string" where
  "str_nat n = (if n < 10 then [char_of (48 + n)]
                else str_nat (n div 10) @ [char_of (48 + n mod 10)])"
  by pat_completeness auto
termination
  by (relation "measure id") auto

definition str_int :: "int \<Rightarrow> string" where
  "str_int i = (if i < 0 then CHR ''-'' # str_nat (nat (- i)) else str_nat (nat i))"

text \<open>\<open>round(n / d)\<close> for integers with \<open>0 < d\<close>: Python rounds a tie to the even
  neighbour. The quotient is taken exactly here; Python takes it in floating point.\<close>

definition py_round_div :: "int \<Rightarrow> int \<Rightarrow> int" where
  "py_round_div n d = (let q = n div d; r = n mod d in
     if 2 * r < d then q
     else if d < 2 * r then q + 1
     else if even q then q else q + 1)"

definition quoted :: "string \<Rightarrow> string" where
  "quoted s = [CHR 0x27] @ s @ [CHR 0x27]"


section \<open>Values, exceptions and the library interface\<close>

text \<open>The values \<open>json.loads\<close> returns. An object keeps its keys in order, each once.\<close>

datatype json =
    JNull
  | JBool bool
  | JInt int
  | JFloat rat
  | JString string
  | JArray "json list"
  | JObject "(string \<times> json) list"

text \<open>Truthiness, as \<open>not city\<close> tests it.\<close>

fun truthy :: "json \<Rightarrow> bool" where
  "truthy JNull = False"
| "truthy (JBool b) = b"
| "truthy (JInt i) = (i \<noteq> 0)"
| "truthy (JFloat x) = (x \<noteq> 0)"
| "truthy (JString s) = (s \<noteq> [])"
| "truthy (JArray xs) = (xs \<noteq> [])"
| "truthy (JObject kvs) = (kvs \<noteq> [])"

fun type_name :: "json \<Rightarrow> string" where
  "type_name JNull = ''NoneType''"
| "type_name (JBool b) = ''bool''"
| "type_name (JInt i) = ''int''"
| "type_name (JFloat x) = ''float''"
| "type_name (JString s) = ''str''"
| "type_name (JArray xs) = ''list''"
| "type_name (JObject kvs) = ''dict''"

text \<open>An exception is its class and the text \<open>str(error)\<close> gives. Every class below is a
  subclass of \<open>Exception\<close>.\<close>

datatype exception_class =
    JSONDecodeError | SyntaxError | AttributeError | TypeError | OtherException string

datatype py_exception = PyExc (exc_class: exception_class) (exc_message: string)

definition no_attribute :: "json \<Rightarrow> string \<Rightarrow> py_exception" where
  "no_attribute v attr =
     PyExc AttributeError (quoted (type_name v) @ '' object has no attribute '' @ quoted attr)"

section \<open>Chunks, messages and events\<close>

text \<open>A chunk of the model stream: \<open>chunk.choices\<close>, each choice with its
  \<open>delta\<close> and \<open>finish_reason\<close>. An absent \<open>delta.tool_calls\<close> is the empty list.
  Iterating the stream yields a chunk or raises.\<close>

datatype function_delta =
  FunctionDelta (fn_name: "string option") (fn_arguments: "string option")

datatype tool_call_delta =
  ToolCallDelta (tc_id: "string option") (tc_function: "function_delta option")

datatype delta =
  Delta (delta_content: "string option") (delta_tool_calls: "tool_call_delta list")

datatype choice =
  Choice (choice_delta: delta) (finish_reason: "string option")

datatype stream_item = Chunk "choice list" | StreamRaises py_exception

text \<open>Truthiness of an optional string: \<open>None\<close> and \<open>""\<close> are false.\<close>

definition nonempty :: "string option \<Rightarrow> bool" where
  "nonempty x = (case x of None \<Rightarrow> False | Some s \<Rightarrow> s \<noteq> [])"

text \<open>A message of the conversation, as a run receives it and as the dict sent to the
  model: the keys \<open>tool_calls\<close> and \<open>tool_call_id\<close> may be absent.\<close>

datatype tool_call =
  ToolCall (call_id: string) (call_name: "string option") (call_arguments: "string option")

datatype message =
  Message (role: string) (content: "string option")
          (tool_calls: "tool_call list option") (tool_call_id: "string option")

datatype run_agent_input =
  RunAgentInput (thread_id: string) (run_id: string) (input_messages: "message list")

datatype event =
    RunStarted string string
  | RunFinished string string
  | RunError string
  | TextMessageStart string
  | TextMessageContent string string
  | TextMessageEnd string
  | ThinkingStart
  | ThinkingEnd
  | ThinkingTextMessageStart
  | ThinkingTextMessageContent string
  | ThinkingTextMessageEnd
  | ToolCallStart string "string option" string
  | ToolCallArgs "string option" string
  | ToolCallEnd string string


text \<open>The state of Python's module-level random generator, in some encoding.\<close>

type_synonym random_state = nat

text \<open>
  What the code calls outside this repository: the standard library (\<open>json\<close>,
  \<open>compile\<close>/\<open>eval\<close>, \<open>random\<close>, \<open>uuid\<close>) and the model client. Each is a parameter.
  \<open>py_compile\<close> returns \<open>code.co_names\<close>; \<open>py_eval_str\<close> is
  \<open>str(eval(code, {"__builtins__": {}}, allowed_names))\<close>; \<open>uuid4 n\<close> is the text of the
  \<open>n\<close>-th identifier drawn in a run; \<open>chat_completions_create tools messages\<close> is the
  streaming call to the model, with the tool declarations offered or not.
\<close>

record library =
  json_loads :: "string \<Rightarrow> py_exception + json"
  json_dumps :: "json \<Rightarrow> string"
  py_compile :: "json \<Rightarrow> py_exception + string list"
  py_eval_str :: "json \<Rightarrow> py_exception + string"
  random_seed :: "int \<Rightarrow> random_state"
  random_randint :: "random_state \<Rightarrow> int \<Rightarrow> int \<Rightarrow> int \<times> random_state"
  random_choice :: "random_state \<Rightarrow> string list \<Rightarrow> string \<times> random_state"
  uuid4 :: "nat \<Rightarrow> string"
  chat_completions_create :: "bool \<Rightarrow> message list \<Rightarrow> py_exception + stream_item list"


section \<open>tools.py\<close>

text \<open>\<open>args.get(key, default)\<close>: only a dict has the method.\<close>

definition dict_get :: "json \<Rightarrow> string \<Rightarrow> json \<Rightarrow> py_exception + json" where
  "dict_get args key dflt =
     (case args of
        JObject kvs \<Rightarrow> (case map_of kvs key of None \<Rightarrow> Inr dflt | Some v \<Rightarrow> Inr v)
      | _ \<Rightarrow> Inl (no_attribute args ''get''))"

definition conditions :: "string list" where
  "conditions = [''Sunny'', ''Partly Cloudy'', ''Cloudy'', ''Rainy'', ''Stormy'', ''Snowy'',
                 ''Foggy'', ''Windy'']"

definition city_seed :: "string \<Rightarrow> int" where
  "city_seed city = sum_list (map ord (lower city))"

definition degree_sign :: char where
  "degree_sign = CHR 0xB0"

text \<open>The four draws of \<open>get_weather\<close>, in the order of the source, from a seeded
  generator: temperature, humidity, condition, wind speed.\<close>

definition draw_weather :: "library \<Rightarrow> random_state \<Rightarrow> (int \<times> int \<times> string \<times> int) \<times> random_state" where
  "draw_weather lib g0 =
     (let (temp_celsius, g1) = random_randint lib g0 (- 10) 40;
          (humidity, g2) = random_randint lib g1 30 95;
          (condition, g3) = random_choice lib g2 conditions;
          (wind_speed, g4) = random_randint lib g3 0 50
      in ((temp_celsius, humidity, condition, wind_speed), g4))"

definition weather_report :: "library \<Rightarrow> json \<Rightarrow> json \<Rightarrow> (int \<times> int \<times> string \<times> int) \<Rightarrow> string" where
  "weather_report lib city units w =
     (case w of (temp_celsius, humidity, condition, wind_speed) \<Rightarrow>
        let (temp, temp_unit) =
              (if units = JString ''fahrenheit''
               then (py_round_div (temp_celsius * 9 + 32 * 5) 5, [degree_sign, CHR ''F''])
               else (temp_celsius, [degree_sign, CHR ''C'']))
        in json_dumps lib (JObject
             [(''city'', city),
              (''temperature'', JString (str_int temp @ temp_unit)),
              (''condition'', JString condition),
              (''humidity'', JString (str_int humidity @ ''%'')),
              (''wind_speed'', JString (str_int wind_speed @ '' km/h'')),
              (''units'', units)]))"

text \<open>\<open>get_weather(city, units)\<close>. The arguments are whatever \<open>args.get\<close> returned, a
  string or not. The generator state before the call goes in, the state after comes out.\<close>

definition get_weather :: "library \<Rightarrow> random_state \<Rightarrow> json \<Rightarrow> json \<Rightarrow> (py_exception + string) \<times> random_state" where
  "get_weather lib g city units =
     (if \<not> truthy city then (Inr ''Error: City name is required'', g)
      else (case city of
              JString c \<Rightarrow>
                (let (w, g') = draw_weather lib (random_seed lib (city_seed c))
                 in (Inr (weather_report lib city units w), g'))
            | _ \<Rightarrow> (Inl (no_attribute city ''lower''), g)))"

definition allowed_names :: "string list" where
  "allowed_names = [''abs'', ''round'', ''min'', ''max'', ''sum'', ''pow'', ''sqrt'', ''sin'',
                    ''cos'', ''tan'', ''log'', ''log10'', ''exp'', ''pi'', ''e'']"

text \<open>The loop over \<open>code.co_names\<close>: the first name that is not allowed.\<close>

fun first_disallowed :: "string list \<Rightarrow> string option" where
  "first_disallowed [] = None"
| "first_disallowed (name # names) =
     (if name \<notin> set allowed_names then Some name else first_disallowed names)"

text \<open>\<open>calculate(expression)\<close>: every exception is caught and turned into text.\<close>

definition calculate :: "library \<Rightarrow> json \<Rightarrow> string" where
  "calculate lib expression =
     (let handler = (\<lambda>e. if exc_class e = SyntaxError
                          then ''Error: Invalid expression syntax - '' @ exc_message e
                          else ''Error: '' @ exc_message e)
      in case py_compile lib expression of
           Inl e \<Rightarrow> handler e
         | Inr co_names \<Rightarrow>
             (case first_disallowed co_names of
                Some name \<Rightarrow> ''Error: Use of '' @ quoted name @ '' is not allowed''
              | None \<Rightarrow>
                  (case py_eval_str lib expression of
                     Inl e \<Rightarrow> handler e
                   | Inr s \<Rightarrow> s)))"

definition str_of_name :: "string option \<Rightarrow> string" where
  "str_of_name n = (case n of None \<Rightarrow> ''None'' | Some s \<Rightarrow> s)"

text \<open>\<open>execute_tool(tool_name, arguments)\<close>. The server can pass \<open>None\<close> for either
  argument. Only \<open>JSONDecodeError\<close> is caught.\<close>

definition execute_tool :: "library \<Rightarrow> random_state \<Rightarrow> string option \<Rightarrow> string option \<Rightarrow> (py_exception + string) \<times> random_state" where
  "execute_tool lib g tool_name arguments =
     (case arguments of
        None \<Rightarrow>
          (Inl (PyExc TypeError ''the JSON object must be str, bytes or bytearray, not NoneType''), g)
      | Some a \<Rightarrow>
          (case json_loads lib a of
             Inl e \<Rightarrow>
               (if exc_class e = JSONDecodeError
                then (Inr (''Error: Invalid JSON arguments: '' @ a), g)
                else (Inl e, g))
           | Inr args \<Rightarrow>
               if tool_name = Some ''calculate'' then
                 (case dict_get args ''expression'' (JString '''') of
                    Inl e \<Rightarrow> (Inl e, g)
                  | Inr expression \<Rightarrow> (Inr (calculate lib expression), g))
               else if tool_name = Some ''get_weather'' then
                 (case dict_get args ''city'' (JString '''') of
                    Inl e \<Rightarrow> (Inl e, g)
                  | Inr city \<Rightarrow>
                      (case dict_get args ''units'' (JString ''celsius'') of
                         Inl e \<Rightarrow> (Inl e, g)
                       | Inr units \<Rightarrow> get_weather lib g city units))
               else (Inr (''Error: Unknown tool '' @ quoted (str_of_name tool_name)), g)))"


section \<open>server.py: the event generator\<close>

definition join_lines :: "string list \<Rightarrow> string" where
  "join_lines ls = (case ls of [] \<Rightarrow> [] | l # rest \<Rightarrow> l @ concat (map (\<lambda>x. CHR 0x0A # x) rest))"

definition system_prompt :: string where
  "system_prompt = join_lines
     [''You are a helpful AI assistant. When answering complex questions or performing calculations:'',
      [],
      ''1. First, wrap your thinking/reasoning process in <thinking>...</thinking> tags'',
      ''2. Then provide your final answer outside the tags'',
      [],
      ''For simple questions, you can skip the thinking tags.'',
      [],
      ''You have access to tools:'',
      ''- calculate: for mathematical expressions'',
      ''- get_weather: for weather information'',
      [],
      ''Example for complex questions:'',
      ''<thinking>'',
      ''Let me break this down step by step...'',
      ''First, I need to...'',
      ''Then I'' @ [CHR 0x27] @ ''ll calculate...'',
      ''</thinking>'',
      [],
      ''The answer is...'']"

text \<open>The conversion of one message to the model's format (lines 152-176).\<close>

definition to_openai :: "message \<Rightarrow> message" where
  "to_openai m =
     Message (role m)
       (Some (case content m of None \<Rightarrow> [] | Some c \<Rightarrow> c))
       (if role m = ''assistant''
        then (case tool_calls m of Some (tc # tcs) \<Rightarrow> Some (tc # tcs) | _ \<Rightarrow> None)
        else None)
       (if role m = ''tool'' then tool_call_id m else None)"

definition openai_messages :: "run_agent_input \<Rightarrow> message list" where
  "openai_messages inp =
     Message ''system'' (Some system_prompt) None None # map to_openai (input_messages inp)"

text \<open>
  The local variables of \<open>event_generator\<close>, with the state of the random generator the
  tools reseed, the number of identifiers drawn from \<open>uuid4\<close>, and a log of the calls made
  to the model (tools offered or not, and the messages sent).
\<close>

record run_state =
  messages :: "message list"
  message_id :: string
  thinking_message_id :: string
  current_tool_call_id :: "string option"
  current_tool_call_name :: "string option"
  current_tool_call_args :: "string option"
  has_text_content :: bool
  has_started_text_message :: bool
  has_started_thinking :: bool
  is_in_thinking :: bool
  content_buffer :: string
  random :: random_state
  uuid_count :: nat
  model_calls :: "(bool \<times> message list) list"

definition initial_state :: "library \<Rightarrow> random_state \<Rightarrow> message list \<Rightarrow> run_state" where
  "initial_state lib g msgs =
     \<lparr> messages = msgs,
       message_id = uuid4 lib 0,
       thinking_message_id = uuid4 lib 1,
       current_tool_call_id = None,
       current_tool_call_name = None,
       current_tool_call_args = Some [],
       has_text_content = False,
       has_started_text_message = False,
       has_started_thinking = False,
       is_in_thinking = False,
       content_buffer = [],
       random = g,
       uuid_count = 2,
       model_calls = [(True, msgs)] \<rparr>"

text \<open>A piece of the generator: the events it yields, then the exception that ended
  it or its value.\<close>

type_synonym 'a gen = "event list \<times> (py_exception + 'a)"

definition then_gen :: "'a gen \<Rightarrow> ('a \<Rightarrow> 'b gen) \<Rightarrow> 'b gen" where
  "then_gen m f =
     (case m of
        (evs, Inl e) \<Rightarrow> (evs, Inl e)
      | (evs, Inr a) \<Rightarrow> (case f a of (evs', r) \<Rightarrow> (evs @ evs', r)))"

subsection \<open>Text content: the thinking tags\<close>

text \<open>Regular text (lines 221-239 and 269-287): the start event once, then the content.\<close>

definition emit_text :: "run_state \<Rightarrow> string \<Rightarrow> event list \<times> run_state" where
  "emit_text st text =
     (if strip text \<noteq> [] then
        ((if \<not> has_started_text_message st then [TextMessageStart (message_id st)] else [])
           @ [TextMessageContent (message_id st) text],
         st\<lparr>has_started_text_message := True, has_text_content := True\<rparr>)
      else ([], st))"

text \<open>Entering a thinking section (lines 241-258).\<close>

definition start_thinking :: "run_state \<Rightarrow> event list \<times> run_state" where
  "start_thinking st =
     (if \<not> has_started_thinking st then
        ([ThinkingStart, ThinkingTextMessageStart],
         st\<lparr>is_in_thinking := True, has_started_thinking := True\<rparr>)
      else ([], st\<lparr>is_in_thinking := True\<rparr>))"

text \<open>Thinking content (lines 297-304 and 330-337).\<close>

definition emit_thinking :: "string \<Rightarrow> event list" where
  "emit_thinking text = (if strip text \<noteq> [] then [ThinkingTextMessageContent text] else [])"

text \<open>The test that makes the loop wait for more content (lines 265 and 325).\<close>

definition might_be_partial_tag :: "string \<Rightarrow> bool" where
  "might_be_partial_tag buf = (str_contains ''<'' buf \<and> \<not> endswith buf ''>'')"

lemma split_once_shorter:
  "split_once sep s = Some (before, after) \<Longrightarrow> sep \<noteq> [] \<Longrightarrow> length after < length s"
proof (induction s arbitrary: before after)
  case Nil
  then show ?case by simp
next
  case (Cons c cs)
  show ?case
  proof (cases "prefix sep (c # cs)")
    case True
    with Cons.prems show ?thesis by auto
  next
    case False
    with Cons.prems obtain b where "split_once sep cs = Some (b, after)"
      by (auto split: option.splits)
    with Cons.IH Cons.prems(2) show ?thesis by fastforce
  qed
qed

text \<open>The \<open>while True\<close> loop over the buffer (lines 213-339). \<open>continue\<close> is the
  recursive call, on the text after the tag; \<open>break\<close> returns.\<close>

function process_buffer :: "run_state \<Rightarrow> event list \<times> run_state" where
  "process_buffer st =
     (if \<not> is_in_thinking st then
        (case split_once ''<thinking>'' (content_buffer st) of
           Some (before, after) \<Rightarrow>
             (let (evs1, st1) = emit_text st before;
                  (evs2, st2) = start_thinking st1;
                  (evs3, st3) = process_buffer (st2\<lparr>content_buffer := after\<rparr>)
              in (evs1 @ evs2 @ evs3, st3))
         | None \<Rightarrow>
             if might_be_partial_tag (content_buffer st) then ([], st)
             else (let (evs, st1) = emit_text st (content_buffer st)
                   in (evs, st1\<lparr>content_buffer := []\<rparr>)))
      else
        (case split_once ''</thinking>'' (content_buffer st) of
           Some (thinking_content, after) \<Rightarrow>
             (let (evs3, st3) =
                    process_buffer (st\<lparr>is_in_thinking := False, content_buffer := after\<rparr>)
              in (emit_thinking thinking_content @ [ThinkingTextMessageEnd, ThinkingEnd] @ evs3,
                  st3))
         | None \<Rightarrow>
             if might_be_partial_tag (content_buffer st) then ([], st)
             else (emit_thinking (content_buffer st), st\<lparr>content_buffer := []\<rparr>)))"
  by pat_completeness auto
termination
  by (relation "measure (\<lambda>st. length (content_buffer st))")
     (auto dest: split_once_shorter)

declare process_buffer.simps [simp del]

text \<open>\<open>if delta.content:\<close> (lines 208-339).\<close>

definition handle_content :: "run_state \<Rightarrow> string option \<Rightarrow> event list \<times> run_state" where
  "handle_content st c =
     (case c of
        None \<Rightarrow> ([], st)
      | Some text \<Rightarrow>
          if text = [] then ([], st)
          else process_buffer (st\<lparr>content_buffer := content_buffer st @ text\<rparr>))"

subsection \<open>Tool calls\<close>

datatype tool_result =
  ToolResult (tr_tool_call_id: string) (tr_name: "string option")
             (tr_arguments: "string option") (tr_result: string)

text \<open>Executing the current call and yielding its end event (lines 352-361 and
  398-407). An exception of \<open>execute_tool\<close> leaves the generator before the event.\<close>

definition execute_current :: "library \<Rightarrow> run_state \<Rightarrow> string \<Rightarrow> (string \<times> run_state) gen" where
  "execute_current lib st cid =
     (case execute_tool lib (random st) (current_tool_call_name st) (current_tool_call_args st) of
        (Inl e, g) \<Rightarrow> ([], Inl e)
      | (Inr result, g) \<Rightarrow> ([ToolCallEnd cid result], Inr (result, st\<lparr>random := g\<rparr>)))"

text \<open>One \<open>tool_call\<close> of \<open>delta.tool_calls\<close> (lines 345-388): a new call, then its
  arguments.\<close>

definition start_tool_call :: "library \<Rightarrow> run_state \<Rightarrow> tool_call_delta \<Rightarrow> run_state gen" where
  "start_tool_call lib st tc =
     (case tc_id tc of
        None \<Rightarrow> ([], Inr st)
      | Some new_id \<Rightarrow>
          if new_id = [] then ([], Inr st)
          else
            then_gen
              (case current_tool_call_id st of
                 None \<Rightarrow> ([], Inr st)
               | Some cid \<Rightarrow>
                   if cid = [] then ([], Inr st)
                   else then_gen (execute_current lib st cid) (\<lambda>(result, st1). ([], Inr st1)))
              (\<lambda>st1.
                 let st2 = st1\<lparr>current_tool_call_id := Some new_id,
                               current_tool_call_name :=
                                 (case tc_function tc of None \<Rightarrow> None | Some f \<Rightarrow> fn_name f),
                               current_tool_call_args :=
                                 (case tc_function tc of None \<Rightarrow> Some [] | Some f \<Rightarrow> fn_arguments f)\<rparr>
                 in ([ToolCallStart new_id (current_tool_call_name st2) (message_id st2)], Inr st2)))"

definition unsupported_operand :: py_exception where
  "unsupported_operand =
     PyExc TypeError (''unsupported operand type(s) for +=: '' @ quoted ''NoneType''
                      @ '' and '' @ quoted ''str'')"

definition stream_arguments :: "run_state \<Rightarrow> tool_call_delta \<Rightarrow> run_state gen" where
  "stream_arguments st tc =
     (case tc_function tc of
        None \<Rightarrow> ([], Inr st)
      | Some f \<Rightarrow>
          (case fn_arguments f of
             None \<Rightarrow> ([], Inr st)
           | Some fragment \<Rightarrow>
               if fragment = [] then ([], Inr st)
               else
                 (case current_tool_call_args st of
                    None \<Rightarrow> ([], Inl unsupported_operand)
                  | Some args \<Rightarrow>
                      ([ToolCallArgs (current_tool_call_id st) fragment],
                       Inr (st\<lparr>current_tool_call_args := Some (args @ fragment)\<rparr>)))))"

definition handle_tool_call :: "library \<Rightarrow> run_state \<Rightarrow> tool_call_delta \<Rightarrow> run_state gen" where
  "handle_tool_call lib st tc =
     then_gen (start_tool_call lib st tc) (\<lambda>st1. stream_arguments st1 tc)"

fun handle_tool_calls :: "library \<Rightarrow> run_state \<Rightarrow> tool_call_delta list \<Rightarrow> run_state gen" where
  "handle_tool_calls lib st [] = ([], Inr st)"
| "handle_tool_calls lib st (tc # tcs) =
     then_gen (handle_tool_call lib st tc) (\<lambda>st1. handle_tool_calls lib st1 tcs)"

subsection \<open>The finish reason and the continuation\<close>

text \<open>The loop over the continuation stream (lines 470-504): content only. It returns
  \<open>continuation_started\<close>.\<close>

fun process_continuation :: "string \<Rightarrow> bool \<Rightarrow> stream_item list \<Rightarrow> bool gen" where
  "process_continuation cmid started [] = ([], Inr started)"
| "process_continuation cmid started (StreamRaises e # rest) = ([], Inl e)"
| "process_continuation cmid started (Chunk [] # rest) = process_continuation cmid started rest"
| "process_continuation cmid started (Chunk (cont_choice # others) # rest) =
     (let (evs1, started1) =
            (case delta_content (choice_delta cont_choice) of
               None \<Rightarrow> ([], started)
             | Some text \<Rightarrow>
                 if text = [] then ([], started)
                 else ((if \<not> started then [TextMessageStart cmid] else [])
                         @ [TextMessageContent cmid text], True));
          evs2 = (if nonempty (finish_reason cont_choice) \<and> started1
                  then [TextMessageEnd cmid] else [])
      in then_gen (evs1 @ evs2, Inr started1) (\<lambda>s. process_continuation cmid s rest))"

definition assistant_message :: "tool_result list \<Rightarrow> message" where
  "assistant_message tool_results =
     Message ''assistant'' None
       (Some (map (\<lambda>tr. ToolCall (tr_tool_call_id tr) (tr_name tr) (tr_arguments tr)) tool_results))
       None"

definition tool_message :: "tool_result \<Rightarrow> message" where
  "tool_message tr = Message ''tool'' (Some (tr_result tr)) None (Some (tr_tool_call_id tr))"

text \<open>Lines 426-504: the messages appended, the second call, its stream.\<close>

definition continue_conversation :: "library \<Rightarrow> run_state \<Rightarrow> tool_result list \<Rightarrow> run_state gen" where
  "continue_conversation lib st tool_results =
     (let msgs = messages st @ [assistant_message tool_results] @ map tool_message tool_results;
          st1 = st\<lparr>messages := msgs, model_calls := model_calls st @ [(False, msgs)]\<rparr>
      in case chat_completions_create lib False msgs of
           Inl e \<Rightarrow> ([], Inl e)
         | Inr continuation_stream \<Rightarrow>
             (let continuation_message_id = uuid4 lib (uuid_count st1);
                  st2 = st1\<lparr>uuid_count := Suc (uuid_count st1)\<rparr>
              in then_gen (process_continuation continuation_message_id False continuation_stream)
                   (\<lambda>started. ([], Inr st2))))"

text \<open>\<open>if choice.finish_reason:\<close> (lines 391-504). \<open>tool_results\<close> starts empty here and
  receives the call that is pending now.\<close>

definition handle_finish :: "library \<Rightarrow> run_state \<Rightarrow> string \<Rightarrow> run_state gen" where
  "handle_finish lib st reason =
     then_gen
       (case current_tool_call_id st of
          None \<Rightarrow> ([], Inr (st, []))
        | Some cid \<Rightarrow>
            if cid = [] then ([], Inr (st, []))
            else then_gen (execute_current lib st cid)
                   (\<lambda>(result, st1).
                      ([], Inr (st1, [ToolResult cid (current_tool_call_name st1)
                                        (current_tool_call_args st1) result]))))
       (\<lambda>(st1, tool_results).
          then_gen
            ((if has_started_text_message st1 then [TextMessageEnd (message_id st1)] else []),
             Inr st1)
            (\<lambda>st2. if reason = ''tool_calls'' \<and> tool_results \<noteq> []
                    then continue_conversation lib st2 tool_results
                    else ([], Inr st2)))"

subsection \<open>The stream and the run\<close>

text \<open>The body of \<open>async for chunk in stream\<close> (lines 201-504).\<close>

definition process_chunk :: "library \<Rightarrow> run_state \<Rightarrow> choice list \<Rightarrow> run_state gen" where
  "process_chunk lib st cs =
     (case cs of
        [] \<Rightarrow> ([], Inr st)
      | c # others \<Rightarrow>
          then_gen (case handle_content st (delta_content (choice_delta c)) of
                      (evs, st1) \<Rightarrow> (evs, Inr st1))
            (\<lambda>st1. then_gen (handle_tool_calls lib st1 (delta_tool_calls (choice_delta c)))
               (\<lambda>st2. case finish_reason c of
                         None \<Rightarrow> ([], Inr st2)
                       | Some reason \<Rightarrow>
                           if reason = [] then ([], Inr st2)
                           else handle_finish lib st2 reason)))"

fun process_stream :: "library \<Rightarrow> run_state \<Rightarrow> stream_item list \<Rightarrow> run_state gen" where
  "process_stream lib st [] = ([], Inr st)"
| "process_stream lib st (StreamRaises e # rest) = ([], Inl e)"
| "process_stream lib st (Chunk cs # rest) =
     then_gen (process_chunk lib st cs) (\<lambda>st1. process_stream lib st1 rest)"

text \<open>The \<open>try\<close> block after the first event (lines 129-504).\<close>

definition run_body :: "library \<Rightarrow> random_state \<Rightarrow> run_agent_input \<Rightarrow> run_state gen" where
  "run_body lib g inp =
     (let msgs = openai_messages inp
      in case chat_completions_create lib True msgs of
           Inl e \<Rightarrow> ([], Inl e)
         | Inr stream \<Rightarrow> process_stream lib (initial_state lib g msgs) stream)"

text \<open>\<open>event_generator\<close>: the events of one run, in order (lines 117-523).\<close>

definition event_generator :: "library \<Rightarrow> random_state \<Rightarrow> run_agent_input \<Rightarrow> event list" where
  "event_generator lib g inp =
     RunStarted (thread_id inp) (run_id inp) #
       (case run_body lib g inp of
          (evs, Inr st) \<Rightarrow> evs @ [RunFinished (thread_id inp) (run_id inp)]
        | (evs, Inl error) \<Rightarrow> evs @ [RunError (exc_message error)])"


text \<open>The calls a run made to the model, when the generator body ended normally.\<close>

definition model_calls_of :: "library \<Rightarrow> random_state \<Rightarrow> run_agent_input \<Rightarrow> (bool \<times> message list) list" where
  "model_calls_of lib g inp =
     (case snd (run_body lib g inp) of Inl error \<Rightarrow> [] | Inr st \<Rightarrow> model_calls st)"

subsection \<open>Terminal events\<close>

text \<open>The two events that end a run.\<close>

fun is_run_terminal :: "event \<Rightarrow> bool" where
  "is_run_terminal (RunFinished t r) = True"
| "is_run_terminal (RunError m) = True"
| "is_run_terminal e = False"

definition quiet :: "event list \<Rightarrow> bool" where
  "quiet evs = (filter is_run_terminal evs = [])"


subsection \<open>Spans\<close>

text \<open>A text is blank when stripping leaves nothing; the plain spans of an event list are
  the texts of its \<open>TEXT_MESSAGE_CONTENT\<close> events; \<open>text_events\<close> is the event list of a
  message that emits the given spans, with its start event unless already started.\<close>

definition nonblank :: "string \<Rightarrow> bool" where
  "nonblank s = (strip s \<noteq> [])"

definition plain_spans :: "event list \<Rightarrow> string list" where
  "plain_spans evs = concat (map (\<lambda>e. case e of TextMessageContent m text \<Rightarrow> [text] | _ \<Rightarrow> []) evs)"

definition text_events :: "string \<Rightarrow> bool \<Rightarrow> string list \<Rightarrow> event list" where
  "text_events mid started spans =
     (if started \<or> spans = [] then [] else [TextMessageStart mid])
       @ map (TextMessageContent mid) spans"


subsection \<open>The shape of a turn\<close>

text \<open>A chunk finishes the turn when its first choice carries a finish reason; it
  announces a tool call when one of its tool-call deltas carries an id. \<open>same_run\<close> relates
  two states with the same model calls, identifier count and message id; a call is open
  when \<open>current_tool_call_id\<close> is set. A run ends normally when no exception leaves the
  generator body.\<close>

definition finishes :: "choice list \<Rightarrow> bool" where
  "finishes cs = (case cs of [] \<Rightarrow> False | c # others \<Rightarrow> nonempty (finish_reason c))"

definition announces :: "choice list \<Rightarrow> bool" where
  "announces cs =
     (case cs of
        [] \<Rightarrow> False
      | c # others \<Rightarrow> list_ex (\<lambda>tc. nonempty (tc_id tc)) (delta_tool_calls (choice_delta c)))"

fun is_text_event_of :: "string \<Rightarrow> event \<Rightarrow> bool" where
  "is_text_event_of mid (TextMessageStart m) = (m = mid)"
| "is_text_event_of mid (TextMessageContent m text) = (m = mid)"
| "is_text_event_of mid (TextMessageEnd m) = (m = mid)"
| "is_text_event_of mid e = False"

definition same_run :: "run_state \<Rightarrow> run_state \<Rightarrow> bool" where
  "same_run st st' =
     (model_calls st' = model_calls st \<and> uuid_count st' = uuid_count st
      \<and> message_id st' = message_id st)"

definition call_open :: "run_state \<Rightarrow> bool" where
  "call_open st = nonempty (current_tool_call_id st)"

definition ends_normally :: "library \<Rightarrow> random_state \<Rightarrow> run_agent_input \<Rightarrow> bool" where
  "ends_normally lib g inp = (case snd (run_body lib g inp) of Inl error \<Rightarrow> False | Inr st \<Rightarrow> True)"


section \<open>Running the model\<close>

text \<open>
  An instance of the library, to run the model on concrete inputs. Its \<open>json_loads\<close>,
  \<open>py_compile\<close> and \<open>py_eval_str\<close> give what Python gives on the texts listed and
  reject every other text; \<open>json_dumps\<close> lays out an object of plain strings as
  \<open>json.dumps(indent=2)\<close> does; the generator, \<open>uuid4\<close> and the model are stand-ins.
\<close>

definition example_loads :: "string \<Rightarrow> py_exception + json" where
  \<open>example_loads s =
     (if s = ''{"expression": "2+2"}'' then Inr (JObject [(''expression'', JString ''2+2'')])
      else if s = ''{"expression": "1+1"}'' then Inr (JObject [(''expression'', JString ''1+1'')])
      else if s = ''{"city": "Paris"}'' then Inr (JObject [(''city'', JString ''Paris'')])
      else if s = ''{"city": 123}'' then Inr (JObject [(''city'', JInt 123)])
      else if s = ''{}'' then Inr (JObject [])
      else if s = ''[]'' then Inr (JArray [])
      else Inl (PyExc JSONDecodeError ''Expecting value: line 1 column 1 (char 0)''))\<close>

definition example_dumps :: "json \<Rightarrow> string" where
  \<open>example_dumps v =
     (case v of
        JObject kvs \<Rightarrow>
          ''{'' @ join_lines ([] # map (\<lambda>(k, x). ''  "'' @ k @ ''": "''
                 @ (case x of JString s \<Rightarrow> s | _ \<Rightarrow> []) @ ''",'') kvs) @ [CHR 0x0A] @ ''}''
      | _ \<Rightarrow> ''null'')\<close>

definition example_library :: library where
  "example_library =
     \<lparr> json_loads = example_loads,
       json_dumps = example_dumps,
       py_compile = (\<lambda>v. if v = JString ''2+2'' \<or> v = JString ''1+1'' then Inr []
                          else Inl (PyExc SyntaxError ''invalid syntax (<string>, line 1)'')),
       py_eval_str = (\<lambda>v. if v = JString ''2+2'' then Inr ''4''
                           else if v = JString ''1+1'' then Inr ''2''
                           else Inl (PyExc SyntaxError ''invalid syntax (<string>, line 1)'')),
       random_seed = (\<lambda>seed. nat \<bar>seed\<bar>),
       random_randint = (\<lambda>g lo hi. (lo + int g mod (hi - lo + 1), Suc g)),
       random_choice = (\<lambda>g xs. (xs ! (g mod length xs), Suc g)),
       uuid4 = (\<lambda>n. ''uuid-'' @ str_nat n),
       chat_completions_create = (\<lambda>tools msgs. Inr []) \<rparr>"

text \<open>The example library with a model that streams \<open>first\<close> when tools are offered and
  \<open>second\<close> when they are not.\<close>

definition with_model :: "stream_item list \<Rightarrow> stream_item list \<Rightarrow> library" where
  "with_model first second =
     example_library\<lparr>chat_completions_create := (\<lambda>tools msgs. Inr (if tools then first else second))\<rparr>"

definition text_chunk :: "string \<Rightarrow> stream_item" where
  "text_chunk s = Chunk [Choice (Delta (Some s) []) None]"

definition finish_chunk :: "string \<Rightarrow> stream_item" where
  "finish_chunk reason = Chunk [Choice (Delta None []) (Some reason)]"

definition tool_chunk :: "string option \<Rightarrow> string option \<Rightarrow> string option \<Rightarrow> stream_item" where
  "tool_chunk new_id name args =
     Chunk [Choice (Delta None [ToolCallDelta new_id (Some (FunctionDelta name args))]) None]"

definition example_input :: run_agent_input where
  "example_input = RunAgentInput ''thread'' ''run'' [Message ''user'' (Some ''hi'') None None]"

text \<open>Scenario 3 of the specification, with the call id and the arguments in separate
  deltas and a continuation that ends with the finish reason \<open>length\<close>.\<close>

definition scenario_pre :: "choice list list" where
  \<open>scenario_pre =
     [[Choice (Delta None [ToolCallDelta (Some ''call_1'')
                             (Some (FunctionDelta (Some ''calculate'') (Some [])))]) None],
      [Choice (Delta None [ToolCallDelta None
                             (Some (FunctionDelta None (Some ''{"expression": "2+2"}'')))]) None]]\<close>

definition scenario_finish :: choice where
  "scenario_finish = Choice (Delta None []) (Some ''tool_calls'')"

definition scenario_library :: library where
  "scenario_library =
     with_model (map Chunk scenario_pre @ [Chunk [scenario_finish]])
                [text_chunk ''The answer is 4'', finish_chunk ''length'']"



section \<open>The run ends with one terminal event\<close>

lemma quiet_simps [simp]:
  "quiet []" "quiet (e # evs) = (\<not> is_run_terminal e \<and> quiet evs)"
  "quiet (xs @ ys) = (quiet xs \<and> quiet ys)"
  by (auto simp: quiet_def)

lemma quiet_then_gen:
  "quiet (fst m) \<Longrightarrow> (\<And>a. quiet (fst (f a))) \<Longrightarrow> quiet (fst (then_gen m f))"
  by (auto simp: then_gen_def split: prod.splits sum.splits) (metis fst_conv)+

lemma quiet_emit_text: "quiet (fst (emit_text st text))"
  by (simp add: emit_text_def)

lemma quiet_start_thinking: "quiet (fst (start_thinking st))"
  by (simp add: start_thinking_def)

lemma quiet_emit_thinking: "quiet (emit_thinking text)"
  by (simp add: emit_thinking_def)

lemma quiet_process_buffer: "quiet (fst (process_buffer st))"
proof (induction st rule: process_buffer.induct)
  case (1 st)
  show ?case
  proof (cases "is_in_thinking st")
    case False
    show ?thesis
    proof (cases "split_once ''<thinking>'' (content_buffer st)")
      case None
      with False show ?thesis
        using quiet_emit_text [of st "content_buffer st"]
        by (subst process_buffer.simps) (auto split: prod.splits)
    next
      case (Some p)
      obtain before after where p: "p = (before, after)" by (cases p)
      obtain evs1 st1 where e1: "emit_text st before = (evs1, st1)" by (cases "emit_text st before")
      obtain evs2 st2 where e2: "start_thinking st1 = (evs2, st2)" by (cases "start_thinking st1")
      have "quiet (fst (process_buffer (st2\<lparr>content_buffer := after\<rparr>)))"
        by (rule "1.IH"(1) [OF False Some [unfolded p] refl e1 [symmetric] refl e2 [symmetric] refl])
      moreover have "quiet evs1" using quiet_emit_text [of st before] e1 by simp
      moreover have "quiet evs2" using quiet_start_thinking [of st1] e2 by simp
      ultimately show ?thesis
        using False Some p e1 e2
        by (subst process_buffer.simps) (auto split: prod.splits)
    qed
  next
    case True
    show ?thesis
    proof (cases "split_once ''</thinking>'' (content_buffer st)")
      case None
      with True show ?thesis
        by (subst process_buffer.simps) (simp add: quiet_emit_thinking)
    next
      case (Some p)
      obtain thinking_content after where p: "p = (thinking_content, after)" by (cases p)
      have "quiet (fst (process_buffer (st\<lparr>is_in_thinking := False, content_buffer := after\<rparr>)))"
        using "1.IH"(2) [OF _ Some [unfolded p] refl] True by simp
      then show ?thesis
        using True Some p
        by (subst process_buffer.simps) (auto simp: quiet_emit_thinking split: prod.splits)
    qed
  qed
qed


lemma quiet_handle_content: "quiet (fst (handle_content st c))"
  by (simp add: handle_content_def quiet_process_buffer split: option.splits)

lemma quiet_execute_current: "quiet (fst (execute_current lib st cid))"
  by (simp add: execute_current_def split: prod.splits sum.splits)

lemma quiet_start_tool_call: "quiet (fst (start_tool_call lib st tc))"
  unfolding start_tool_call_def
  by (auto simp: Let_def quiet_execute_current split: option.splits prod.splits
           intro!: quiet_then_gen)

lemma quiet_stream_arguments: "quiet (fst (stream_arguments st tc))"
  by (simp add: stream_arguments_def split: option.splits)

lemma quiet_handle_tool_call: "quiet (fst (handle_tool_call lib st tc))"
  unfolding handle_tool_call_def
  by (intro quiet_then_gen quiet_start_tool_call quiet_stream_arguments)

lemma quiet_handle_tool_calls: "quiet (fst (handle_tool_calls lib st tcs))"
  by (induction tcs arbitrary: st) (auto intro!: quiet_then_gen quiet_handle_tool_call)

lemma quiet_process_continuation: "quiet (fst (process_continuation cmid started items))"
  by (induction cmid started items rule: process_continuation.induct)
     (auto simp: Let_def split: option.splits prod.splits intro!: quiet_then_gen)

lemma quiet_continue_conversation: "quiet (fst (continue_conversation lib st trs))"
  unfolding continue_conversation_def
  by (auto simp: Let_def quiet_process_continuation split: sum.splits intro!: quiet_then_gen)

lemma quiet_handle_finish: "quiet (fst (handle_finish lib st reason))"
  unfolding handle_finish_def
  by (auto simp: quiet_execute_current quiet_continue_conversation
           split: option.splits prod.splits intro!: quiet_then_gen)

lemma quiet_process_chunk: "quiet (fst (process_chunk lib st cs))"
  unfolding process_chunk_def
  by (auto simp: quiet_handle_tool_calls quiet_handle_finish
           split: list.splits option.splits prod.splits intro!: quiet_then_gen)
     (use quiet_handle_content in \<open>metis fst_conv\<close>)+

lemma quiet_process_stream: "quiet (fst (process_stream lib st items))"
  by (induction lib st items rule: process_stream.induct)
     (auto intro!: quiet_then_gen quiet_process_chunk)

lemma quiet_run_body: "quiet (fst (run_body lib g inp))"
  by (simp add: run_body_def Let_def quiet_process_stream split: sum.splits)

text \<open>
  Claim C1. Every run emits exactly one terminal run event, and it is the last event of
  the stream: \<open>RUN_FINISHED\<close> when the body of the generator ends normally,
  \<open>RUN_ERROR\<close> with the text of the exception when one is raised. So never both, never
  neither, and nothing follows a \<open>RUN_ERROR\<close>.
\<close>

theorem event_generator_one_terminal:
  "filter is_run_terminal (event_generator lib g inp) = [last (event_generator lib g inp)]
   \<and> last (event_generator lib g inp) =
       (case snd (run_body lib g inp) of
          Inr st \<Rightarrow> RunFinished (thread_id inp) (run_id inp)
        | Inl error \<Rightarrow> RunError (exc_message error))"
proof -
  obtain evs r where rb: "run_body lib g inp = (evs, r)" by (cases "run_body lib g inp")
  have q: "filter is_run_terminal evs = []"
    using quiet_run_body [of lib g inp] rb by (simp add: quiet_def)
  show ?thesis
    using q by (cases r) (simp_all add: event_generator_def rb)
qed


section \<open>The tools\<close>

text \<open>
  Claim C10. \<open>get_weather\<close> is deterministic: its result does not depend on the state the
  random generator is in when it is called, because the generator is reseeded from the
  character codes of the lowercased city before the four draws. For a non-empty city
  string the result is the report built from those draws, so temperature, condition,
  humidity and wind speed depend on the city and the units only.
\<close>

theorem get_weather_deterministic:
  "fst (get_weather lib g1 city units) = fst (get_weather lib g2 city units)
   \<and> get_weather lib g (JString (c # cs)) units =
       (Inr (weather_report lib (JString (c # cs)) units
               (fst (draw_weather lib (random_seed lib (city_seed (c # cs)))))),
        snd (draw_weather lib (random_seed lib (city_seed (c # cs)))))"
  by (simp add: get_weather_def split: json.splits prod.splits)

lemma city_seed_ignores_case: "city_seed ''PARIS'' = city_seed ''paris''"
  by code_simp

text \<open>
  Claim C5 says that \<open>execute_tool\<close> never raises. It does: arguments that are valid JSON
  but hold a city that is not a string, or that are not an object, raise
  \<open>AttributeError\<close>; only \<open>JSONDecodeError\<close> is caught.
\<close>

theorem execute_tool_raises:
  \<open>execute_tool example_library 0 (Some ''get_weather'') (Some ''{"city": 123}'')
   = (Inl (PyExc AttributeError (quoted ''int'' @ '' object has no attribute '' @ quoted ''lower'')), 0)
  \<and> execute_tool example_library 0 (Some ''calculate'') (Some ''[]'')
   = (Inl (PyExc AttributeError (quoted ''list'' @ '' object has no attribute '' @ quoted ''get'')), 0)\<close>
  by code_simp

text \<open>The exception leaves the generator: the run ends with \<open>RUN_ERROR\<close> and the call is
  never closed.\<close>

lemma execute_tool_exception_ends_run:
  \<open>event_generator
     (with_model [tool_chunk (Some ''call_1'') (Some ''get_weather'') (Some ''''),
                  tool_chunk None None (Some ''{"city": 123}''),
                  finish_chunk ''tool_calls''] []) 0 example_input
   = [RunStarted ''thread'' ''run'',
      ToolCallStart ''call_1'' (Some ''get_weather'') ''uuid-0'',
      ToolCallArgs (Some ''call_1'') ''{"city": 123}'',
      RunError (quoted ''int'' @ '' object has no attribute '' @ quoted ''lower'')]\<close>
  by code_simp


section \<open>The first turn at concrete streams\<close>

text \<open>
  Claim C2 says that every opened reasoning span is closed before the terminal event,
  also when the stream ends inside a \<open><thinking>\<close> section. At the finish reason the code
  closes the pending tool call and the text message only: the run below opens the
  thinking span and never emits \<open>THINKING_TEXT_MESSAGE_END\<close> or \<open>THINKING_END\<close>.
\<close>

theorem unclosed_thinking_at_finish:
  "event_generator
     (with_model [text_chunk ''<thinking>abc'', finish_chunk ''stop''] []) 0 example_input
   = [RunStarted ''thread'' ''run'', ThinkingStart, ThinkingTextMessageStart,
      ThinkingTextMessageContent ''abc'', RunFinished ''thread'' ''run'']"
  by code_simp

text \<open>
  Claim C3 says that text still held in the buffer is emitted when the finish reason
  arrives. The code never looks at the buffer there: text withheld after a \<open><\<close> is lost,
  and the run below emits no text event at all.
\<close>

theorem withheld_text_discarded_at_finish:
  "event_generator
     (with_model [text_chunk ''1 < 2'', finish_chunk ''stop''] []) 0 example_input
   = [RunStarted ''thread'' ''run'', RunFinished ''thread'' ''run'']"
  by code_simp

text \<open>
  Claim C4 says that the arguments a call is executed with are the fragments received,
  each once. When the first fragment arrives with the call id, line 365 stores it and
  line 379 appends it again: the call below is executed, and recorded, with the fragment
  doubled, while the \<open>TOOL_CALL_ARGS\<close> event carries it once.
\<close>

theorem first_fragment_appended_twice:
  \<open>event_generator
     (with_model [tool_chunk (Some ''call_1'') (Some ''calculate'') (Some ''{"expression": "2+2"}''),
                  finish_chunk ''tool_calls'']
                 [text_chunk ''The answer is 4'', finish_chunk ''stop'']) 0 example_input
   = [RunStarted ''thread'' ''run'',
      ToolCallStart ''call_1'' (Some ''calculate'') ''uuid-0'',
      ToolCallArgs (Some ''call_1'') ''{"expression": "2+2"}'',
      ToolCallEnd ''call_1''
        ''Error: Invalid JSON arguments: {"expression": "2+2"}{"expression": "2+2"}'',
      TextMessageStart ''uuid-2'', TextMessageContent ''uuid-2'' ''The answer is 4'',
      TextMessageEnd ''uuid-2'', RunFinished ''thread'' ''run'']
  \<and> map snd (tl (model_calls_of
     (with_model [tool_chunk (Some ''call_1'') (Some ''calculate'') (Some ''{"expression": "2+2"}''),
                  finish_chunk ''tool_calls'']
                 [text_chunk ''The answer is 4'', finish_chunk ''stop'']) 0 example_input))
   = [openai_messages example_input @
       [Message ''assistant'' None
          (Some [ToolCall ''call_1'' (Some ''calculate'')
                   (Some ''{"expression": "2+2"}{"expression": "2+2"}'')]) None,
        Message ''tool''
          (Some ''Error: Invalid JSON arguments: {"expression": "2+2"}{"expression": "2+2"}'')
          None (Some ''call_1'')]]\<close>
  by code_simp

text \<open>
  Claim C6 says that the messages sent to the continuation call hold every tool call
  executed in the turn. \<open>tool_results\<close> is created at the finish reason and receives the
  pending call only: below, \<open>call_A\<close> is executed and its end event emitted, and the
  continuation is sent \<open>call_B\<close> alone.
\<close>

theorem earlier_call_not_collected:
  \<open>map snd (tl (model_calls_of
     (with_model [tool_chunk (Some ''call_A'') (Some ''calculate'') (Some ''''),
                  tool_chunk None None (Some ''{"expression": "1+1"}''),
                  tool_chunk (Some ''call_B'') (Some ''calculate'') (Some ''''),
                  tool_chunk None None (Some ''{"expression": "2+2"}''),
                  finish_chunk ''tool_calls'']
                 [text_chunk ''Done'', finish_chunk ''stop'']) 0 example_input))
   = [openai_messages example_input @
       [Message ''assistant'' None
          (Some [ToolCall ''call_B'' (Some ''calculate'') (Some ''{"expression": "2+2"}'')]) None,
        Message ''tool'' (Some ''4'') None (Some ''call_B'')]]
  \<and> event_generator
     (with_model [tool_chunk (Some ''call_A'') (Some ''calculate'') (Some ''''),
                  tool_chunk None None (Some ''{"expression": "1+1"}''),
                  tool_chunk (Some ''call_B'') (Some ''calculate'') (Some ''''),
                  tool_chunk None None (Some ''{"expression": "2+2"}''),
                  finish_chunk ''tool_calls'']
                 [text_chunk ''Done'', finish_chunk ''stop'']) 0 example_input
   = [RunStarted ''thread'' ''run'',
      ToolCallStart ''call_A'' (Some ''calculate'') ''uuid-0'',
      ToolCallArgs (Some ''call_A'') ''{"expression": "1+1"}'',
      ToolCallEnd ''call_A'' ''2'',
      ToolCallStart ''call_B'' (Some ''calculate'') ''uuid-0'',
      ToolCallArgs (Some ''call_B'') ''{"expression": "2+2"}'',
      ToolCallEnd ''call_B'' ''4'',
      TextMessageStart ''uuid-2'', TextMessageContent ''uuid-2'' ''Done'',
      TextMessageEnd ''uuid-2'', RunFinished ''thread'' ''run'']\<close>
  by code_simp


section \<open>Delimiters split across fragments\<close>

lemma split_once_Some:
  "split_once sep s = Some (b, a) \<Longrightarrow> s = b @ sep @ a"
proof (induction s arbitrary: b)
  case Nil
  then show ?case by (simp split: if_splits)
next
  case (Cons c cs)
  show ?case
  proof (cases "prefix sep (c # cs)")
    case True
    with Cons.prems have "b = []" "a = drop (length sep) (c # cs)" by auto
    with True show ?thesis by (metis append_Nil append_eq_conv_conj prefix_def)
  next
    case False
    with Cons.prems obtain b' where "split_once sep cs = Some (b', a)" "b = c # b'"
      by (auto split: option.splits)
    with Cons.IH show ?thesis by simp
  qed
qed

lemma split_once_append:
  "split_once sep s = Some (b, a) \<Longrightarrow> split_once sep (s @ t) = Some (b, a @ t)"
proof (induction s arbitrary: b)
  case Nil
  then show ?case by (cases t) (auto split: if_splits)
next
  case (Cons c cs)
  show ?case
  proof (cases "prefix sep (c # cs)")
    case True
    then have "prefix sep ((c # cs) @ t)" by (rule prefix_prefix)
    moreover from True have "length sep \<le> length (c # cs)" by (rule prefix_length_le)
    then have "drop (length sep) ((c # cs) @ t) = drop (length sep) (c # cs) @ t"
      by (subst drop_append) simp
    ultimately show ?thesis using Cons.prems True by auto
  next
    case False
    with Cons.prems obtain b' where b': "split_once sep cs = Some (b', a)" "b = c # b'"
      by (auto split: option.splits)
    from split_once_Some [OF b'(1)] have "length sep \<le> length (c # cs)" by simp
    with False have "\<not> prefix sep ((c # cs) @ t)"
      by (metis prefix_length_prefix prefix_def)
    with Cons.IH [OF b'(1)] b'(2) show ?thesis by simp
  qed
qed

lemma str_contains_char: "str_contains [c] s \<longleftrightarrow> c \<in> set s"
  by (induction s) (auto simp: str_contains_def split: option.splits)


lemma emit_text_buffer:
  "emit_text (st\<lparr>content_buffer := x\<rparr>) text =
     (fst (emit_text st text), (snd (emit_text st text))\<lparr>content_buffer := x\<rparr>)"
  by (simp add: emit_text_def)

lemma start_thinking_buffer:
  "start_thinking (st\<lparr>content_buffer := x\<rparr>) =
     (fst (start_thinking st), (snd (start_thinking st))\<lparr>content_buffer := x\<rparr>)"
  by (simp add: start_thinking_def)

lemma process_buffer_waiting:
  "process_buffer st = (evs, st') \<Longrightarrow> content_buffer st' \<noteq> [] \<Longrightarrow>
   process_buffer (st\<lparr>content_buffer := content_buffer st @ t\<rparr>) =
     (evs @ fst (process_buffer (st'\<lparr>content_buffer := content_buffer st' @ t\<rparr>)),
      snd (process_buffer (st'\<lparr>content_buffer := content_buffer st' @ t\<rparr>)))"
proof (induction st arbitrary: evs st' rule: process_buffer.induct)
  case (1 st)
  show ?case
  proof (cases "is_in_thinking st")
    case False
    show ?thesis
    proof (cases "split_once ''<thinking>'' (content_buffer st)")
      case None
      show ?thesis
      proof (cases "might_be_partial_tag (content_buffer st)")
        case True
        with None False "1.prems"(1) have "evs = []" "st' = st"
          by (subst (asm) process_buffer.simps, simp)+
        then show ?thesis by simp
      next
        case nw: False
        with None False "1.prems"(1) have "content_buffer st' = []"
          by (subst (asm) process_buffer.simps) (auto split: prod.splits)
        with "1.prems"(2) show ?thesis by simp
      qed
    next
      case (Some p)
      obtain before after where p: "p = (before, after)" by (cases p)
      obtain evs1 st1 where e1: "emit_text st before = (evs1, st1)" by (cases "emit_text st before")
      obtain evs2 st2 where e2: "start_thinking st1 = (evs2, st2)" by (cases "start_thinking st1")
      obtain evs3 st3 where e3: "process_buffer (st2\<lparr>content_buffer := after\<rparr>) = (evs3, st3)"
        by (cases "process_buffer (st2\<lparr>content_buffer := after\<rparr>)")
      from "1.prems"(1) False Some p e1 e2 e3 have res: "evs = evs1 @ evs2 @ evs3" "st' = st3"
        by (subst (asm) process_buffer.simps, simp)+
      have ih: "process_buffer (st2\<lparr>content_buffer := after @ t\<rparr>) =
          (evs3 @ fst (process_buffer (st3\<lparr>content_buffer := content_buffer st3 @ t\<rparr>)),
           snd (process_buffer (st3\<lparr>content_buffer := content_buffer st3 @ t\<rparr>)))"
        using "1.IH"(1) [OF False Some [unfolded p] refl e1 [symmetric] refl e2 [symmetric] refl e3]
          "1.prems"(2) res(2) by simp
      have sp: "split_once ''<thinking>'' (content_buffer st @ t) = Some (before, after @ t)"
        using Some p by (simp add: split_once_append)
      show ?thesis
        using False sp e1 e2 ih res
        by (subst process_buffer.simps)
           (simp add: emit_text_buffer start_thinking_buffer)
    qed
  next
    case True
    show ?thesis
    proof (cases "split_once ''</thinking>'' (content_buffer st)")
      case None
      show ?thesis
      proof (cases "might_be_partial_tag (content_buffer st)")
        case w: True
        with None True "1.prems"(1) have "evs = []" "st' = st"
          by (subst (asm) process_buffer.simps, simp)+
        then show ?thesis by simp
      next
        case nw: False
        with None True "1.prems"(1) have "content_buffer st' = []"
          by (subst (asm) process_buffer.simps) (auto split: prod.splits)
        with "1.prems"(2) show ?thesis by simp
      qed
    next
      case (Some p)
      obtain thinking_content after where p: "p = (thinking_content, after)" by (cases p)
      obtain evs3 st3 where
        e3: "process_buffer (st\<lparr>is_in_thinking := False, content_buffer := after\<rparr>) = (evs3, st3)"
        by (cases "process_buffer (st\<lparr>is_in_thinking := False, content_buffer := after\<rparr>)")
      from "1.prems"(1) True Some p e3 have
        res: "evs = emit_thinking thinking_content @ [ThinkingTextMessageEnd, ThinkingEnd] @ evs3"
             "st' = st3"
        by (subst (asm) process_buffer.simps, simp)+
      have ih: "process_buffer (st\<lparr>is_in_thinking := False, content_buffer := after @ t\<rparr>) =
          (evs3 @ fst (process_buffer (st3\<lparr>content_buffer := content_buffer st3 @ t\<rparr>)),
           snd (process_buffer (st3\<lparr>content_buffer := content_buffer st3 @ t\<rparr>)))"
        using "1.IH"(2) [OF _ Some [unfolded p] refl e3] True "1.prems"(2) res(2) by simp
      have sp: "split_once ''</thinking>'' (content_buffer st @ t) = Some (thinking_content, after @ t)"
        using Some p by (simp add: split_once_append)
      show ?thesis
        using True sp ih res
        by (subst process_buffer.simps) simp
    qed
  qed
qed


lemma after_keeps_suffix:
  assumes "x @ d = b @ sep @ a" "sep \<noteq> []" "last sep \<notin> set d"
  shows "\<exists>a'. a = a' @ d"
proof -
  define bs where "bs = b @ sep"
  from assms(1) have "bs @ a = x @ d" by (simp add: bs_def)
  then obtain u where u: "(bs = x @ u \<and> u @ a = d) \<or> (bs @ u = x \<and> a = u @ d)"
    unfolding append_eq_append_conv2 by blast
  show ?thesis
  proof (cases "bs = x @ u \<and> u @ a = d \<and> u \<noteq> []")
    case True
    then have "last u = last bs" by simp
    also have "\<dots> = last sep" using assms(2) by (simp add: bs_def)
    finally have "last sep \<in> set u" using True last_in_set by metis
    with True assms(3) show ?thesis by auto
  next
    case False
    with u show ?thesis by auto
  qed
qed

lemma partial_tag_waits:
  assumes "d \<noteq> []" "hd d = CHR ''<''" "CHR ''>'' \<notin> set d"
  shows "might_be_partial_tag (x @ d)"
proof -
  have "CHR ''<'' \<in> set (x @ d)" using assms(1,2) by (cases d) auto
  moreover have "\<not> suffix ''>'' (x @ d)"
  proof
    assume "suffix ''>'' (x @ d)"
    then obtain y where "x @ d = y @ ''>''" by (auto simp: suffix_def)
    then have "last (x @ d) = CHR ''>''" by simp
    with assms(1) have "last d = CHR ''>''" by simp
    with assms(1,3) show False using last_in_set by metis
  qed
  ultimately show ?thesis
    by (simp add: might_be_partial_tag_def str_contains_char endswith_def)
qed

lemma process_buffer_keeps_partial:
  assumes d: "d \<noteq> []" "hd d = CHR ''<''" "CHR ''>'' \<notin> set d"
  shows "content_buffer st = x @ d \<Longrightarrow> \<exists>y. content_buffer (snd (process_buffer st)) = y @ d"
proof (induction st arbitrary: x rule: process_buffer.induct)
  case (1 st)
  have w: "might_be_partial_tag (content_buffer st)"
    using partial_tag_waits [OF d] "1.prems" by simp
  show ?case
  proof (cases "is_in_thinking st")
    case False
    show ?thesis
    proof (cases "split_once ''<thinking>'' (content_buffer st)")
      case None
      with False w "1.prems" show ?thesis
        by (subst process_buffer.simps) simp
    next
      case (Some p)
      obtain before after where p: "p = (before, after)" by (cases p)
      obtain evs1 st1 where e1: "emit_text st before = (evs1, st1)" by (cases "emit_text st before")
      obtain evs2 st2 where e2: "start_thinking st1 = (evs2, st2)" by (cases "start_thinking st1")
      from split_once_Some [OF Some [unfolded p]] "1.prems"
      have "x @ d = before @ ''<thinking>'' @ after" by simp
      then obtain a' where a': "after = a' @ d"
        using after_keeps_suffix [of x d before "''<thinking>''" after] d(3) by auto
      have "\<exists>y. content_buffer (snd (process_buffer (st2\<lparr>content_buffer := after\<rparr>))) = y @ d"
        by (rule "1.IH"(1) [OF False Some [unfolded p] refl e1 [symmetric] refl e2 [symmetric] refl])
           (simp add: a')
      then show ?thesis
        using False Some p e1 e2
        by (subst process_buffer.simps) (auto split: prod.splits)
    qed
  next
    case True
    show ?thesis
    proof (cases "split_once ''</thinking>'' (content_buffer st)")
      case None
      with True w "1.prems" show ?thesis
        by (subst process_buffer.simps) simp
    next
      case (Some p)
      obtain thinking_content after where p: "p = (thinking_content, after)" by (cases p)
      from split_once_Some [OF Some [unfolded p]] "1.prems"
      have "x @ d = thinking_content @ ''</thinking>'' @ after" by simp
      then obtain a' where a': "after = a' @ d"
        using after_keeps_suffix [of x d thinking_content "''</thinking>''" after] d(3) by auto
      have "\<exists>y. content_buffer (snd (process_buffer
                 (st\<lparr>is_in_thinking := False, content_buffer := after\<rparr>))) = y @ d"
        by (rule "1.IH"(2) [OF _ Some [unfolded p] refl]) (simp_all add: True a')
      then show ?thesis
        using True Some p
        by (subst process_buffer.simps) (auto split: prod.splits)
    qed
  qed
qed

lemma split_tag_prefix:
  assumes "d1 @ d2 = ''<thinking>'' \<or> d1 @ d2 = ''</thinking>''" "d1 \<noteq> []" "d2 \<noteq> []"
  shows "hd d1 = CHR ''<''" "CHR ''>'' \<notin> set d1"
proof -
  from assms(2) have "hd d1 = hd (d1 @ d2)" by simp
  with assms(1) show "hd d1 = CHR ''<''" by auto
  from assms(3) have "butlast (d1 @ d2) = d1 @ butlast d2" by (simp add: butlast_append)
  then have "set d1 \<subseteq> set (butlast (d1 @ d2))" by simp
  with assms(1) show "CHR ''>'' \<notin> set d1" by auto
qed

lemma handle_content_split_tag:
  assumes "d1 @ d2 = ''<thinking>'' \<or> d1 @ d2 = ''</thinking>''" "d1 \<noteq> []" "d2 \<noteq> []"
  shows "handle_content st (Some (a @ d1 @ d2 @ b)) =
           (fst (handle_content st (Some (a @ d1)))
              @ fst (handle_content (snd (handle_content st (Some (a @ d1)))) (Some (d2 @ b))),
            snd (handle_content (snd (handle_content st (Some (a @ d1)))) (Some (d2 @ b))))"
proof -
  let ?st0 = "st\<lparr>content_buffer := content_buffer st @ a @ d1\<rparr>"
  obtain evs st' where r: "process_buffer ?st0 = (evs, st')" by (cases "process_buffer ?st0")
  have "\<exists>y. content_buffer (snd (process_buffer ?st0)) = y @ d1"
    by (rule process_buffer_keeps_partial [OF assms(2) split_tag_prefix [OF assms],
          of _ "content_buffer st @ a"]) simp
  with r assms(2) have ne: "content_buffer st' \<noteq> []" by auto
  from process_buffer_waiting [OF r ne, of "d2 @ b"] r assms(2,3)
  show ?thesis by (simp add: handle_content_def)
qed

text \<open>
  Claim C9. A delimiter split across two consecutive text fragments gives the same
  events, and leaves the run in the same state, as the concatenated text in one
  fragment: whenever \<open>d1 @ d2\<close> is \<open><thinking>\<close> or \<open></thinking>\<close> and both parts are non-empty,
  feeding \<open>a @ d1\<close> then \<open>d2 @ b\<close> equals feeding \<open>a @ d1 @ d2 @ b\<close>, from every state and
  before every rest of the stream.
\<close>

theorem split_delimiter_invariance:
  assumes "d1 @ d2 = ''<thinking>'' \<or> d1 @ d2 = ''</thinking>''" "d1 \<noteq> []" "d2 \<noteq> []"
  shows "process_stream lib st (text_chunk (a @ d1) # text_chunk (d2 @ b) # rest) =
         process_stream lib st (text_chunk (a @ d1 @ d2 @ b) # rest)"
proof -
  have chunk: "\<And>s c. process_chunk lib s [Choice (Delta (Some c) []) None] =
      (fst (handle_content s (Some c)), Inr (snd (handle_content s (Some c))))"
    by (simp add: process_chunk_def then_gen_def split: prod.splits)
  show ?thesis
    by (simp add: text_chunk_def chunk handle_content_split_tag [OF assms] then_gen_def
             split: prod.splits sum.splits)
qed

theorem split_delimiter_invariance_witness:
  "(''<thi'' @ ''nking>'' = ''<thinking>'' \<or> ''<thi'' @ ''nking>'' = ''</thinking>'')
   \<and> process_stream example_library (initial_state example_library 0 [])
        [text_chunk (''Hello '' @ ''<thi''), text_chunk (''nking>'' @ ''step''), finish_chunk ''stop''] =
      process_stream example_library (initial_state example_library 0 [])
        [text_chunk (''Hello '' @ ''<thi'' @ ''nking>'' @ ''step''), finish_chunk ''stop'']"
  using split_delimiter_invariance [of "''<thi''" "''nking>''" example_library
          "initial_state example_library 0 []" "''Hello ''" "''step''" "[finish_chunk ''stop'']"]
  by simp


section \<open>Text without delimiters\<close>

lemma str_contains_appendI1: "str_contains sep s \<Longrightarrow> str_contains sep (s @ t)"
  by (auto simp: str_contains_def dest: split_once_append)

lemma str_contains_appendI2: "str_contains sep t \<Longrightarrow> str_contains sep (s @ t)"
  by (induction s) (auto simp: str_contains_def split: option.splits)

lemma split_once_None_char:
  assumes "c \<in> set sep" "c \<notin> set s"
  shows "split_once sep s = None"
proof (cases "split_once sep s")
  case None
  then show ?thesis .
next
  case (Some p)
  obtain b a where "p = (b, a)" by (cases p)
  with Some have "s = b @ sep @ a" by (simp add: split_once_Some)
  with assms show ?thesis by auto
qed

lemma text_events_append:
  "text_events mid started (xs @ ys) =
     text_events mid started xs @ text_events mid (started \<or> xs \<noteq> []) ys"
  by (auto simp: text_events_def)

text \<open>One fragment fed outside a thinking section, no opening tag in sight.\<close>

lemma handle_content_plain:
  assumes "\<not> is_in_thinking st" "\<not> str_contains ''<thinking>'' (content_buffer st @ f)"
  shows "\<exists>spans st'.
           handle_content st (Some f) =
             (text_events (message_id st) (has_started_text_message st) spans, st')
         \<and> list_all nonblank spans
         \<and> \<not> is_in_thinking st' \<and> message_id st' = message_id st
         \<and> has_started_text_message st' = (has_started_text_message st \<or> spans \<noteq> [])
         \<and> (content_buffer st' = [] \<or> content_buffer st' = content_buffer st @ f)
         \<and> (content_buffer st = [] \<and> CHR ''<'' \<notin> set f \<longrightarrow>
              content_buffer st' = [] \<and> spans = filter nonblank [f])"
proof (cases "f = []")
  case True
  then have "handle_content st (Some f) = (text_events (message_id st) (has_started_text_message st) [], st)"
    by (simp add: handle_content_def text_events_def)
  with assms(1) True show ?thesis
    by (intro exI [of _ "[]"] exI [of _ st]) (simp add: nonblank_def strip_def)
next
  case False
  let ?buf = "content_buffer st @ f"
  let ?st0 = "st\<lparr>content_buffer := ?buf\<rparr>"
  have none: "split_once ''<thinking>'' ?buf = None"
    using assms(2) unfolding str_contains_def by blast
  show ?thesis
  proof (cases "might_be_partial_tag ?buf")
    case True
    with none assms(1) False have "handle_content st (Some f) = ([], ?st0)"
      by (simp add: handle_content_def) (subst process_buffer.simps, simp)
    moreover from True have "\<not> (content_buffer st = [] \<and> CHR ''<'' \<notin> set f)"
      by (auto simp: might_be_partial_tag_def str_contains_char)
    ultimately show ?thesis
      using assms(1)
      by (intro exI [of _ "[]"] exI [of _ ?st0]) (auto simp: text_events_def)
  next
    case np: False
    show ?thesis
    proof (cases "nonblank ?buf")
      case True
      let ?st1 = "st\<lparr>content_buffer := [], has_started_text_message := True, has_text_content := True\<rparr>"
      from none assms(1) False np True
      have "handle_content st (Some f) =
              (text_events (message_id st) (has_started_text_message st) [?buf], ?st1)"
        by (simp add: handle_content_def)
           (subst process_buffer.simps, simp add: emit_text_def nonblank_def text_events_def)
      with True assms(1) show ?thesis
        by (intro exI [of _ "[?buf]"] exI [of _ ?st1]) auto
    next
      case nb: False
      let ?st1 = "st\<lparr>content_buffer := []\<rparr>"
      from none assms(1) False np nb
      have "handle_content st (Some f) =
              (text_events (message_id st) (has_started_text_message st) [], ?st1)"
        by (simp add: handle_content_def)
           (subst process_buffer.simps, simp add: emit_text_def nonblank_def text_events_def)
      with nb assms(1) show ?thesis
        by (intro exI [of _ "[]"] exI [of _ ?st1]) auto
    qed
  qed
qed

lemma process_chunk_text:
  "process_chunk lib st [Choice (Delta (Some c) []) None] =
     (fst (handle_content st (Some c)), Inr (snd (handle_content st (Some c))))"
  by (simp add: process_chunk_def then_gen_def split: prod.splits)

lemma process_stream_plain:
  assumes "\<not> is_in_thinking st" "\<not> str_contains ''<thinking>'' (content_buffer st @ concat fs)"
  shows "\<exists>spans st'.
           process_stream lib st (map text_chunk fs) =
             (text_events (message_id st) (has_started_text_message st) spans, Inr st')
         \<and> list_all nonblank spans
         \<and> (content_buffer st = [] \<and> CHR ''<'' \<notin> set (concat fs) \<longrightarrow> spans = filter nonblank fs)"
  using assms
proof (induction fs arbitrary: st)
  case Nil
  then show ?case
    by (intro exI [of _ "[]"] exI [of _ st]) (simp add: text_events_def)
next
  case (Cons f fs)
  from Cons.prems(2) have nf: "\<not> str_contains ''<thinking>'' (content_buffer st @ f)"
    using str_contains_appendI1 [of "''<thinking>''" "content_buffer st @ f" "concat fs"] by auto
  from handle_content_plain [OF Cons.prems(1) nf]
  obtain s1 st1 where
    h: "handle_content st (Some f) =
          (text_events (message_id st) (has_started_text_message st) s1, st1)"
    and s1: "list_all nonblank s1"
    and st1: "\<not> is_in_thinking st1" "message_id st1 = message_id st"
      "has_started_text_message st1 = (has_started_text_message st \<or> s1 \<noteq> [])"
    and buf1: "content_buffer st1 = [] \<or> content_buffer st1 = content_buffer st @ f"
    and lt1: "content_buffer st = [] \<and> CHR ''<'' \<notin> set f \<longrightarrow>
                content_buffer st1 = [] \<and> s1 = filter nonblank [f]"
    by blast
  have nrest: "\<not> str_contains ''<thinking>'' (content_buffer st1 @ concat fs)"
  proof (cases "content_buffer st1 = []")
    case True
    with Cons.prems(2) show ?thesis
      using str_contains_appendI2 [of "''<thinking>''" "concat fs" "content_buffer st @ f"] by auto
  next
    case False
    with buf1 Cons.prems(2) show ?thesis by auto
  qed
  from Cons.IH [OF st1(1) nrest]
  obtain s2 st2 where
    r: "process_stream lib st1 (map text_chunk fs) =
          (text_events (message_id st1) (has_started_text_message st1) s2, Inr st2)"
    and s2: "list_all nonblank s2"
    and lt2: "content_buffer st1 = [] \<and> CHR ''<'' \<notin> set (concat fs) \<longrightarrow> s2 = filter nonblank fs"
    by blast
  have "process_stream lib st (map text_chunk (f # fs)) =
          (text_events (message_id st) (has_started_text_message st) (s1 @ s2), Inr st2)"
    using h r st1(2,3)
    by (simp add: text_chunk_def process_chunk_text then_gen_def text_events_append)
  moreover have "list_all nonblank (s1 @ s2)" using s1 s2 by simp
  moreover have "content_buffer st = [] \<and> CHR ''<'' \<notin> set (concat (f # fs)) \<longrightarrow>
                   s1 @ s2 = filter nonblank (f # fs)"
    using lt1 lt2 by auto
  ultimately show ?case by blast
qed

text \<open>
  Claim C8, as the code has it. For text fragments whose concatenation contains no
  \<open><thinking>\<close>, fed from the start of a turn, the generator emits text-message events of
  the turn's message only (so no reasoning event), the start event once and first, and
  no span is blank. When the concatenation contains no \<open><\<close> at all, there is one span per
  fragment that is not blank, in order, and its text is the fragment as received,
  untrimmed; blank fragments are dropped.
\<close>

theorem plain_fragments_streamed:
  assumes "\<not> str_contains ''<thinking>'' (concat fs)"
  shows "\<exists>spans st'.
           process_stream lib (initial_state lib g msgs) (map text_chunk fs) =
             (text_events (uuid4 lib 0) False spans, Inr st')
         \<and> list_all nonblank spans
         \<and> (CHR ''<'' \<notin> set (concat fs) \<longrightarrow> spans = filter nonblank fs)"
  using process_stream_plain [of "initial_state lib g msgs" fs lib] assms
  by (simp add: initial_state_def)

theorem plain_fragments_streamed_witness:
  "\<not> str_contains ''<thinking>'' (concat [''Hello'', '' '', '' world''])
   \<and> CHR ''<'' \<notin> set (concat [''Hello'', '' '', '' world''])
   \<and> fst (process_stream example_library (initial_state example_library 0 [])
            (map text_chunk [''Hello'', '' '', '' world''])) =
       [TextMessageStart ''uuid-0'', TextMessageContent ''uuid-0'' ''Hello'',
        TextMessageContent ''uuid-0'' '' world'']"
proof -
  have h: "\<not> str_contains ''<thinking>'' (concat [''Hello'', '' '', '' world''])"
    by code_simp
  have lt: "CHR ''<'' \<notin> set (concat [''Hello'', '' '', '' world''])"
    by simp
  have f: "filter nonblank [''Hello'', '' '', '' world''] = [''Hello'', '' world'']"
    by code_simp
  have u: "uuid4 example_library 0 = ''uuid-0''"
    by code_simp
  from plain_fragments_streamed [OF h, of example_library 0 "[]"] lt f u
  obtain st' where
    "process_stream example_library (initial_state example_library 0 [])
       (map text_chunk [''Hello'', '' '', '' world'']) =
     (text_events ''uuid-0'' False [''Hello'', '' world''], Inr st')"
    by auto
  then show ?thesis using h lt by (simp add: text_events_def)
qed

text \<open>The claim as stated, a single span holding the trimmed concatenation, fails for
  two fragments: each is emitted on arrival.\<close>

theorem single_trimmed_span_counterexample:
  "\<not> str_contains ''<thinking>'' (concat [''Hello'', '' world''])
   \<and> \<not> str_contains ''</thinking>'' (concat [''Hello'', '' world''])
   \<and> plain_spans (fst (process_stream example_library (initial_state example_library 0 [])
                         (map text_chunk [''Hello'', '' world''])))
       = [''Hello'', '' world'']
   \<and> [''Hello'', '' world''] \<noteq> [strip (concat [''Hello'', '' world''])]"
  by code_simp


section \<open>The continuation turn\<close>

lemma same_run_refl [simp]: "same_run st st"
  by (simp add: same_run_def)

lemma same_run_trans: "same_run a b \<Longrightarrow> same_run b c \<Longrightarrow> same_run a c"
  by (simp add: same_run_def)

lemma then_gen_Inr:
  assumes "then_gen m f = (evs, Inr b)"
  obtains e1 a e2 where "m = (e1, Inr a)" "f a = (e2, Inr b)" "evs = e1 @ e2"
  using assms by (auto simp: then_gen_def split: prod.splits sum.splits)

lemma then_gen_return [simp]: "then_gen ([], Inr a) f = f a"
  by (simp add: then_gen_def split: prod.splits)

lemma then_gen_assoc:
  "then_gen (then_gen m f) h = then_gen m (\<lambda>a. then_gen (f a) h)"
  by (auto simp: then_gen_def split: prod.splits sum.splits)

lemma process_stream_append:
  "process_stream lib st (xs @ ys) =
     then_gen (process_stream lib st xs) (\<lambda>s. process_stream lib s ys)"
proof (induction lib st xs rule: process_stream.induct)
  case (1 lib st)
  show ?case by simp
next
  case (2 lib st e rest)
  show ?case by (simp add: then_gen_def)
next
  case (3 lib st cs rest)
  then show ?case by (simp add: then_gen_assoc)
qed

lemma process_buffer_same:
  "same_run st (snd (process_buffer st))
   \<and> current_tool_call_id (snd (process_buffer st)) = current_tool_call_id st"
proof (induction st rule: process_buffer.induct)
  case (1 st)
  show ?case
  proof (cases "is_in_thinking st")
    case False
    show ?thesis
    proof (cases "split_once ''<thinking>'' (content_buffer st)")
      case None
      with False show ?thesis
        by (subst (1 2) process_buffer.simps)
           (auto simp: same_run_def emit_text_def split: prod.splits)
    next
      case (Some p)
      obtain before after where p: "p = (before, after)" by (cases p)
      obtain evs1 st1 where e1: "emit_text st before = (evs1, st1)" by (cases "emit_text st before")
      obtain evs2 st2 where e2: "start_thinking st1 = (evs2, st2)" by (cases "start_thinking st1")
      have ih: "same_run (st2\<lparr>content_buffer := after\<rparr>)
                  (snd (process_buffer (st2\<lparr>content_buffer := after\<rparr>)))
         \<and> current_tool_call_id (snd (process_buffer (st2\<lparr>content_buffer := after\<rparr>)))
             = current_tool_call_id (st2\<lparr>content_buffer := after\<rparr>)"
        by (rule "1.IH"(1) [OF False Some [unfolded p] refl e1 [symmetric] refl e2 [symmetric] refl])
      have "same_run st st2 \<and> current_tool_call_id st2 = current_tool_call_id st"
        using e1 e2 by (auto simp: same_run_def emit_text_def start_thinking_def split: if_splits)
      with ih show ?thesis
        using False Some p e1 e2
        by (subst (1 2) process_buffer.simps)
           (auto simp: same_run_def split: prod.splits)
    qed
  next
    case True
    show ?thesis
    proof (cases "split_once ''</thinking>'' (content_buffer st)")
      case None
      with True show ?thesis
        by (subst (1 2) process_buffer.simps) (auto simp: same_run_def)
    next
      case (Some p)
      obtain thinking_content after where p: "p = (thinking_content, after)" by (cases p)
      have "same_run (st\<lparr>is_in_thinking := False, content_buffer := after\<rparr>)
              (snd (process_buffer (st\<lparr>is_in_thinking := False, content_buffer := after\<rparr>)))
         \<and> current_tool_call_id
              (snd (process_buffer (st\<lparr>is_in_thinking := False, content_buffer := after\<rparr>)))
             = current_tool_call_id (st\<lparr>is_in_thinking := False, content_buffer := after\<rparr>)"
        using "1.IH"(2) [OF _ Some [unfolded p] refl] True by simp
      then show ?thesis
        using True Some p
        by (subst (1 2) process_buffer.simps)
           (auto simp: same_run_def split: prod.splits)
    qed
  qed
qed

lemma handle_content_same:
  "same_run st (snd (handle_content st c))
   \<and> current_tool_call_id (snd (handle_content st c)) = current_tool_call_id st"
proof (cases "\<exists>s. c = Some s \<and> s \<noteq> []")
  case True
  then obtain s where "c = Some s" "s \<noteq> []" by blast
  then show ?thesis
    using process_buffer_same [of "st\<lparr>content_buffer := content_buffer st @ s\<rparr>"]
    by (simp add: handle_content_def same_run_def)
next
  case False
  then show ?thesis by (cases c) (auto simp: handle_content_def)
qed

lemma execute_current_same:
  "execute_current lib st cid = (evs, Inr (result, st')) \<Longrightarrow>
   same_run st st' \<and> current_tool_call_id st' = current_tool_call_id st
   \<and> has_started_text_message st' = has_started_text_message st"
  by (auto simp: execute_current_def same_run_def split: prod.splits sum.splits)

lemma start_tool_call_same:
  assumes "start_tool_call lib st tc = (evs, Inr st')"
  shows "same_run st st' \<and> (call_open st \<or> nonempty (tc_id tc) \<longrightarrow> call_open st')"
proof (cases "nonempty (tc_id tc)")
  case False
  with assms show ?thesis
    by (auto simp: start_tool_call_def nonempty_def split: option.splits)
next
  case True
  then obtain new_id where n: "tc_id tc = Some new_id" "new_id \<noteq> []"
    by (auto simp: nonempty_def split: option.splits)
  from assms n obtain e1 st1 e2 where
    a: "(case current_tool_call_id st of
           None \<Rightarrow> ([], Inr st)
         | Some cid \<Rightarrow>
             if cid = [] then ([], Inr st)
             else then_gen (execute_current lib st cid) (\<lambda>(result, st1). ([], Inr st1)))
        = (e1, Inr st1)"
    and b: "(let st2 = st1\<lparr>current_tool_call_id := Some new_id,
                           current_tool_call_name :=
                             (case tc_function tc of None \<Rightarrow> None | Some f \<Rightarrow> fn_name f),
                           current_tool_call_args :=
                             (case tc_function tc of None \<Rightarrow> Some [] | Some f \<Rightarrow> fn_arguments f)\<rparr>
             in ([ToolCallStart new_id (current_tool_call_name st2) (message_id st2)], Inr st2))
        = (e2, Inr st')"
    by (auto simp: start_tool_call_def elim!: then_gen_Inr)
  have "same_run st st1"
  proof (cases "nonempty (current_tool_call_id st)")
    case False
    with a show ?thesis by (auto simp: nonempty_def split: option.splits)
  next
    case True
    then obtain cid where c: "current_tool_call_id st = Some cid" "cid \<noteq> []"
      by (auto simp: nonempty_def split: option.splits)
    with a show ?thesis
      by (auto elim!: then_gen_Inr dest: execute_current_same)
  qed
  moreover from b have "same_run st1 st'" "call_open st'"
    by (auto simp: Let_def same_run_def call_open_def nonempty_def n)
  ultimately show ?thesis by (auto intro: same_run_trans)
qed

lemma stream_arguments_same:
  "stream_arguments st tc = (evs, Inr st') \<Longrightarrow>
   same_run st st' \<and> call_open st' = call_open st"
  by (auto simp: stream_arguments_def same_run_def call_open_def
           split: option.splits if_splits)

lemma handle_tool_call_same:
  assumes "handle_tool_call lib st tc = (evs, Inr st')"
  shows "same_run st st' \<and> (call_open st \<or> nonempty (tc_id tc) \<longrightarrow> call_open st')"
proof -
  from assms obtain e1 st1 e2 where
    "start_tool_call lib st tc = (e1, Inr st1)" "stream_arguments st1 tc = (e2, Inr st')"
    by (auto simp: handle_tool_call_def elim!: then_gen_Inr)
  with start_tool_call_same [of lib st tc e1 st1] stream_arguments_same [of st1 tc e2 st']
  show ?thesis by (auto intro: same_run_trans)
qed

lemma handle_tool_calls_same:
  "handle_tool_calls lib st tcs = (evs, Inr st') \<Longrightarrow>
   same_run st st'
   \<and> (call_open st \<or> list_ex (\<lambda>tc. nonempty (tc_id tc)) tcs \<longrightarrow> call_open st')"
proof (induction tcs arbitrary: st evs)
  case Nil
  then show ?case by simp
next
  case (Cons tc tcs)
  from Cons.prems obtain e1 st1 e2 where
    a: "handle_tool_call lib st tc = (e1, Inr st1)"
    and b: "handle_tool_calls lib st1 tcs = (e2, Inr st')"
    by (auto elim!: then_gen_Inr)
  from handle_tool_call_same [OF a] Cons.IH [OF b] show ?case
    by (auto intro: same_run_trans)
qed


lemma process_chunk_steps:
  assumes "process_chunk lib st (c # others) = (evs, Inr st')"
  obtains e1 e2 e3 st2 where
    "handle_tool_calls lib (snd (handle_content st (delta_content (choice_delta c))))
       (delta_tool_calls (choice_delta c)) = (e2, Inr st2)"
    "(case finish_reason c of
        None \<Rightarrow> ([], Inr st2)
      | Some reason \<Rightarrow> if reason = [] then ([], Inr st2) else handle_finish lib st2 reason)
     = (e3, Inr st')"
    "evs = e1 @ e2 @ e3"
  using assms
  by (auto simp: process_chunk_def split: prod.splits elim!: then_gen_Inr)

lemma process_chunk_no_finish:
  assumes "\<not> finishes cs" "process_chunk lib st cs = (evs, Inr st')"
  shows "same_run st st' \<and> (call_open st \<or> announces cs \<longrightarrow> call_open st')"
proof (cases cs)
  case Nil
  with assms show ?thesis by (simp add: process_chunk_def announces_def)
next
  case (Cons c others)
  let ?st1 = "snd (handle_content st (delta_content (choice_delta c)))"
  from assms(2) Cons obtain e1 e2 e3 st2 where
    t: "handle_tool_calls lib ?st1 (delta_tool_calls (choice_delta c)) = (e2, Inr st2)"
    and f: "(case finish_reason c of
               None \<Rightarrow> ([], Inr st2)
             | Some reason \<Rightarrow> if reason = [] then ([], Inr st2) else handle_finish lib st2 reason)
            = (e3, Inr st')"
    by (auto elim: process_chunk_steps)
  from assms(1) Cons f have "st' = st2"
    by (auto simp: finishes_def nonempty_def split: option.splits if_splits)
  moreover have "same_run st ?st1" "call_open ?st1 = call_open st"
    using handle_content_same [of st "delta_content (choice_delta c)"]
    by (simp_all add: call_open_def)
  ultimately show ?thesis
    using handle_tool_calls_same [OF t] Cons
    by (auto simp: announces_def intro: same_run_trans)
qed

lemma process_stream_no_finish:
  "list_all (\<lambda>cs. \<not> finishes cs) pre \<Longrightarrow>
   process_stream lib st (map Chunk pre) = (evs, Inr st') \<Longrightarrow>
   same_run st st' \<and> (call_open st \<or> list_ex announces pre \<longrightarrow> call_open st')"
proof (induction pre arbitrary: st evs)
  case Nil
  then show ?case by simp
next
  case (Cons cs pre)
  from Cons.prems(2) obtain e1 st1 e2 where
    a: "process_chunk lib st cs = (e1, Inr st1)"
    and b: "process_stream lib st1 (map Chunk pre) = (e2, Inr st')"
    by (auto elim!: then_gen_Inr)
  from Cons.prems(1) have "\<not> finishes cs" "list_all (\<lambda>cs. \<not> finishes cs) pre" by simp_all
  from process_chunk_no_finish [OF this(1) a] Cons.IH [OF this(2) b] show ?case
    by (auto intro: same_run_trans)
qed

lemma list_all_then_gen:
  "list_all P (fst m) \<Longrightarrow> (\<And>a. list_all P (fst (f a))) \<Longrightarrow> list_all P (fst (then_gen m f))"
  by (auto simp: then_gen_def split: prod.splits sum.splits) (metis fst_conv)+

lemma continuation_text_only:
  "list_all (is_text_event_of cmid) (fst (process_continuation cmid started items))"
  by (induction cmid started items rule: process_continuation.induct)
     (auto simp: Let_def split: option.splits prod.splits intro!: list_all_then_gen)

lemma continue_conversation_Inr:
  assumes "continue_conversation lib st trs = (evs, Inr st')"
  shows "\<exists>msgs cont.
           model_calls st' = model_calls st @ [(False, msgs)]
         \<and> chat_completions_create lib False msgs = Inr cont
         \<and> evs = fst (process_continuation (uuid4 lib (uuid_count st)) False cont)
         \<and> message_id st' = message_id st"
proof -
  let ?msgs = "messages st @ [assistant_message trs] @ map tool_message trs"
  from assms obtain cont where c: "chat_completions_create lib False ?msgs = Inr cont"
    by (cases "chat_completions_create lib False ?msgs")
       (auto simp: continue_conversation_def Let_def)
  with assms show ?thesis
    by (intro exI [of _ ?msgs] exI [of _ cont])
       (auto simp: continue_conversation_def Let_def elim!: then_gen_Inr)
qed

lemma handle_finish_tool_calls:
  assumes "handle_finish lib st ''tool_calls'' = (evs, Inr st')" "call_open st"
  shows "\<exists>msgs cont turn.
           model_calls st' = model_calls st @ [(False, msgs)]
         \<and> chat_completions_create lib False msgs = Inr cont
         \<and> evs = turn @ fst (process_continuation (uuid4 lib (uuid_count st)) False cont)
         \<and> message_id st' = message_id st"
proof -
  from assms(2) obtain cid where cid: "current_tool_call_id st = Some cid" "cid \<noteq> []"
    by (auto simp: call_open_def nonempty_def split: option.splits)
  from assms(1) cid obtain e1 result st1 e3 where
    x: "execute_current lib st cid = (e1, Inr (result, st1))"
    and cc: "continue_conversation lib st1
               [ToolResult cid (current_tool_call_name st1) (current_tool_call_args st1) result]
             = (e3, Inr st')"
    and evs: "evs = e1 @ (if has_started_text_message st1 then [TextMessageEnd (message_id st1)] else []) @ e3"
    by (auto simp: handle_finish_def elim!: then_gen_Inr)
  from execute_current_same [OF x] have s: "same_run st st1" by simp
  from continue_conversation_Inr [OF cc] obtain msgs cont where
    "model_calls st' = model_calls st1 @ [(False, msgs)]"
    "chat_completions_create lib False msgs = Inr cont"
    "e3 = fst (process_continuation (uuid4 lib (uuid_count st1)) False cont)"
    "message_id st' = message_id st1"
    by blast
  with s evs show ?thesis
    by (intro exI [of _ msgs] exI [of _ cont]
          exI [of _ "e1 @ (if has_started_text_message st1 then [TextMessageEnd (message_id st1)] else [])"])
       (simp add: same_run_def)
qed


text \<open>
  Claim C7. Take a first stream whose last chunk carries the finish reason
  \<open>tool_calls\<close>, with no finish reason before it and a tool call announced, in a run that
  no exception ends. Then the run makes exactly two model calls, the second without
  tools; the continuation stream is processed by the content-only loop under the third
  identifier drawn, which differs from the first turn's message id when \<open>uuid4\<close> does not
  repeat; its events are text-message events of that identifier only; and the run ends
  with \<open>RUN_FINISHED\<close>, whatever finish reason the continuation carries.
\<close>

theorem continuation_after_tool_calls:
  assumes first: "chat_completions_create lib True (openai_messages inp) =
                    Inr (map Chunk pre @ [Chunk (c # others)])"
    and pre: "list_all (\<lambda>cs. \<not> finishes cs) pre"
    and fin: "finish_reason c = Some ''tool_calls''"
    and ann: "list_ex announces (pre @ [c # others])"
    and ok: "ends_normally lib g inp"
    and fresh: "uuid4 lib 2 \<noteq> uuid4 lib 0"
  shows "\<exists>msgs cont turn.
           model_calls_of lib g inp = [(True, openai_messages inp), (False, msgs)]
         \<and> chat_completions_create lib False msgs = Inr cont
         \<and> event_generator lib g inp =
             RunStarted (thread_id inp) (run_id inp) #
               turn @ fst (process_continuation (uuid4 lib 2) False cont)
                 @ [RunFinished (thread_id inp) (run_id inp)]
         \<and> list_all (is_text_event_of (uuid4 lib 2))
               (fst (process_continuation (uuid4 lib 2) False cont))
         \<and> uuid4 lib 2 \<noteq> message_id (initial_state lib g (openai_messages inp))"
proof -
  let ?st0 = "initial_state lib g (openai_messages inp)"
  from ok obtain evs st where rb: "run_body lib g inp = (evs, Inr st)"
    by (cases "run_body lib g inp") (auto simp: ends_normally_def split: sum.splits)
  with first have
    "then_gen (process_stream lib ?st0 (map Chunk pre))
       (\<lambda>s. process_stream lib s [Chunk (c # others)]) = (evs, Inr st)"
    by (simp add: run_body_def Let_def process_stream_append)
  then obtain e1 st1 e2 where
    p: "process_stream lib ?st0 (map Chunk pre) = (e1, Inr st1)"
    and l: "process_stream lib st1 [Chunk (c # others)] = (e2, Inr st)"
    and evs: "evs = e1 @ e2"
    by (erule then_gen_Inr)
  from l have ch: "process_chunk lib st1 (c # others) = (e2, Inr st)"
    by (auto elim!: then_gen_Inr)
  let ?st1' = "snd (handle_content st1 (delta_content (choice_delta c)))"
  from ch fin obtain ea eb ec st2 where
    t: "handle_tool_calls lib ?st1' (delta_tool_calls (choice_delta c)) = (eb, Inr st2)"
    and f: "handle_finish lib st2 ''tool_calls'' = (ec, Inr st)"
    and e2: "e2 = ea @ eb @ ec"
    by (auto elim: process_chunk_steps)
  from process_stream_no_finish [OF pre p] have
    s01: "same_run ?st0 st1" and o1: "list_ex announces pre \<longrightarrow> call_open st1"
    by simp_all
  have s11: "same_run st1 ?st1'" "call_open ?st1' = call_open st1"
    using handle_content_same [of st1 "delta_content (choice_delta c)"]
    by (simp_all add: call_open_def)
  from handle_tool_calls_same [OF t] have
    s12: "same_run ?st1' st2"
    and o2: "call_open ?st1' \<or> list_ex (\<lambda>tc. nonempty (tc_id tc))
               (delta_tool_calls (choice_delta c)) \<longrightarrow> call_open st2"
    by simp_all
  from ann have "list_ex announces pre \<or> announces (c # others)" by simp
  with o1 o2 s11(2) have op: "call_open st2" by (auto simp: announces_def)
  have s02: "same_run ?st0 st2" using s01 s11(1) s12 by (blast intro: same_run_trans)
  from handle_finish_tool_calls [OF f op] obtain msgs cont turn where
    m: "model_calls st = model_calls st2 @ [(False, msgs)]"
    and c: "chat_completions_create lib False msgs = Inr cont"
    and ec: "ec = turn @ fst (process_continuation (uuid4 lib (uuid_count st2)) False cont)"
    by blast
  from s02 have st2: "model_calls st2 = [(True, openai_messages inp)]" "uuid_count st2 = 2"
    by (simp_all add: same_run_def initial_state_def)
  have "model_calls_of lib g inp = [(True, openai_messages inp), (False, msgs)]"
    using rb m st2 by (simp add: model_calls_of_def)
  moreover have "event_generator lib g inp =
      RunStarted (thread_id inp) (run_id inp) #
        (e1 @ ea @ eb @ turn) @ fst (process_continuation (uuid4 lib 2) False cont)
          @ [RunFinished (thread_id inp) (run_id inp)]"
    using rb evs e2 ec st2 by (simp add: event_generator_def)
  moreover have "uuid4 lib 2 \<noteq> message_id ?st0"
    using fresh by (simp add: initial_state_def)
  ultimately show ?thesis
    using c continuation_text_only [of "uuid4 lib 2" False cont] by blast
qed

theorem continuation_after_tool_calls_witness:
  "list_all (\<lambda>cs. \<not> finishes cs) scenario_pre
   \<and> finish_reason scenario_finish = Some ''tool_calls''
   \<and> list_ex announces (scenario_pre @ [[scenario_finish]])
   \<and> ends_normally scenario_library 0 example_input
   \<and> uuid4 scenario_library 2 \<noteq> uuid4 scenario_library 0
   \<and> (\<exists>msgs cont turn.
         model_calls_of scenario_library 0 example_input =
           [(True, openai_messages example_input), (False, msgs)]
       \<and> chat_completions_create scenario_library False msgs = Inr cont
       \<and> event_generator scenario_library 0 example_input =
           RunStarted (thread_id example_input) (run_id example_input) #
             turn @ fst (process_continuation (uuid4 scenario_library 2) False cont)
               @ [RunFinished (thread_id example_input) (run_id example_input)]
       \<and> list_all (is_text_event_of (uuid4 scenario_library 2))
             (fst (process_continuation (uuid4 scenario_library 2) False cont))
       \<and> uuid4 scenario_library 2 \<noteq>
           message_id (initial_state scenario_library 0 (openai_messages example_input)))"
proof -
  have h1: "chat_completions_create scenario_library True (openai_messages example_input) =
              Inr (map Chunk scenario_pre @ [Chunk (scenario_finish # [])])"
    by (simp add: scenario_library_def with_model_def)
  have h2: "list_all (\<lambda>cs. \<not> finishes cs) scenario_pre"
    by code_simp
  have h3: "finish_reason scenario_finish = Some ''tool_calls''"
    by (simp add: scenario_finish_def)
  have h4: "list_ex announces (scenario_pre @ [scenario_finish # []])"
    by code_simp
  have h5: "ends_normally scenario_library 0 example_input"
    by code_simp
  have h6: "uuid4 scenario_library 2 \<noteq> uuid4 scenario_library 0"
    by code_simp
  from continuation_after_tool_calls [OF h1 h2 h3 h4 h5 h6] h2 h3 h4 h5 h6
  show ?thesis by blast
qed

end
